theory Spec2Isabelle
  imports Complex_Main "HOL-Library.Word" "HOL-Library.Sublist"
begin

section \<open>JavaScript numbers\<close>

text \<open>
  A JavaScript number is an IEEE-754 binary64 value. The quality of the encoding loop is
  such a number: it starts at \<open>1.0\<close> and is changed by \<open>quality -= 0.08\<close>, and it is
  scaled by \<open>quality * 100\<close> before \<open>Math.ceil\<close>. Every finite double is a rational, so a
  double is modelled by the rational it denotes, and every arithmetic operation is the exact
  operation followed by rounding to the nearest double, ties to the even significand
  (\<open>to_double\<close>). Subnormal results are covered (the exponent is clamped at \<open>-1022\<close>);
  overflow to infinity is not, the numbers of this program stay between \<open>0\<close> and \<open>100\<close>.
\<close>

function bitlen :: "int \<Rightarrow> int" where
  "bitlen n = (if n \<le> 0 then 0 else 1 + bitlen (n div 2))"
  by pat_completeness auto
termination
  by (relation "measure nat") auto

declare bitlen.simps [simp del]

definition pow2 :: "int \<Rightarrow> rat" where
  "pow2 e = (if 0 \<le> e then 2 ^ nat e else 1 / 2 ^ nat (- e))"

text \<open>\<open>binade x\<close> is the exponent \<open>e\<close> with \<open>2^e \<le> |x| < 2^(e+1)\<close>, for \<open>x \<noteq> 0\<close>.\<close>

definition binade :: "rat \<Rightarrow> int" where
  "binade x =
     (let (n, d) = quotient_of \<bar>x\<bar>;
          k = bitlen n - bitlen d
      in if pow2 k \<le> \<bar>x\<bar> then k else k - 1)"

definition round_half_even :: "rat \<Rightarrow> int" where
  "round_half_even x =
     (let f = \<lfloor>x\<rfloor>; r = x - of_int f
      in if r < 1 / 2 then f else if 1 / 2 < r then f + 1
         else if even f then f else f + 1)"

definition to_double :: "rat \<Rightarrow> rat" where
  "to_double x =
     (if x = 0 then 0
      else let e = max (binade x) (- 1022); ulp = pow2 (e - 52)
           in of_int (round_half_even (x / ulp)) * ulp)"

definition js_sub :: "rat \<Rightarrow> rat \<Rightarrow> rat" where
  "js_sub a b = to_double (a - b)"

definition js_mul :: "rat \<Rightarrow> rat \<Rightarrow> rat" where
  "js_mul a b = to_double (a * b)"

definition Math_ceil :: "rat \<Rightarrow> int" where
  "Math_ceil x = \<lceil>x\<rceil>"

text \<open>The number literals \<open>0.08\<close> and \<open>0.07\<close> of the source denote the nearest doubles.\<close>

definition lit_0_08 :: rat where
  "lit_0_08 = to_double (8 / 100)"

definition lit_0_07 :: rat where
  "lit_0_07 = to_double (7 / 100)"

section \<open>Data model\<close>

type_synonym byte = "8 word"
type_synonym bytes = "byte list"

text \<open>
  A data URL \<open>data:image/<type>;base64,<payload>\<close> is modelled by its image type and the
  bytes of its payload: \<open>btoa\<close> of the byte string builds it, and
  \<open>atob(url.replace(/^data:image\/[a-z]+;base64,/, ''))\<close> gives the byte string back.
\<close>

datatype mime = PNG | WEBP

datatype data_url = DataURL (mime_of: mime) (payload: bytes)

text \<open>The \<open>ImageData\<close> read from a canvas: \<open>data\<close> holds the RGBA bytes.\<close>

record imageData =
  width :: int
  height :: int
  data :: bytes

datatype error =
    RangeError
  | JimpReadError
  | ConvertError nat
  | LessThan3Images
  | ZipLoadError
  | TypeError
  | ImageDataError

section \<open>The native codec module\<close>

text \<open>
  The WebAssembly module is not part of the program: it is a parameter. Everything the
  program does to the outside is recorded, in order, in a history of events; the module
  answers a call as a function of the history up to and including that call, which covers
  every deterministic module, also one that injects faults.
\<close>

datatype event =
    Create_buffer int int
  | Create_buffer_with_size int
  | Heap_set bytes int
  | Encode int int int int
  | Decode int int
  | Get_encode_result_pointer
  | Get_encode_result_size
  | Get_decode_result_pointer
  | Get_decode_result_width
  | Get_decode_result_height
  | Free_result int
  | Destroy_buffer int
  | Console_error nat rat
  | Add_number_to_tray data_url string

type_synonym history = "event list"

record native =
  create_buffer :: "history \<Rightarrow> int"
  create_buffer_with_size :: "history \<Rightarrow> int"
  get_encode_result_pointer :: "history \<Rightarrow> int"
  get_encode_result_size :: "history \<Rightarrow> int"
  get_decode_result_pointer :: "history \<Rightarrow> int"
  get_decode_result_width :: "history \<Rightarrow> int"
  get_decode_result_height :: "history \<Rightarrow> int"
  heap_byteLength :: "history \<Rightarrow> nat"
  HEAP8 :: "history \<Rightarrow> nat \<Rightarrow> byte"

text \<open>
  \<open>HEAP8.set(source, offset)\<close> raises a RangeError when the offset is negative or the source
  does not fit behind it; \<open>new Uint8Array(buffer, byteOffset, length)\<close> raises a RangeError
  when the offset or the length is negative or the view ends behind the buffer.
\<close>

definition heap_set_ok :: "nat \<Rightarrow> bytes \<Rightarrow> int \<Rightarrow> bool" where
  "heap_set_ok heapLen src off \<longleftrightarrow> 0 \<le> off \<and> off + int (length src) \<le> int heapLen"

definition view_ok :: "nat \<Rightarrow> int \<Rightarrow> int \<Rightarrow> bool" where
  "view_ok bufLen off len \<longleftrightarrow> 0 \<le> off \<and> 0 \<le> len \<and> off + len \<le> int bufLen"

definition view_bytes :: "(nat \<Rightarrow> byte) \<Rightarrow> int \<Rightarrow> int \<Rightarrow> bytes" where
  "view_bytes hp off len = map hp [nat off ..< nat off + nat len]"

section \<open>The codec bridge\<close>

definition convertImageDataToWebpURL ::
  "native \<Rightarrow> imageData \<Rightarrow> int \<Rightarrow> history \<Rightarrow> (error + data_url) \<times> history" where
  "convertImageDataToWebpURL M imageData quality h0 =
     (let h1 = h0 @ [Create_buffer (width imageData) (height imageData)];
          p = create_buffer M h1
      in if \<not> heap_set_ok (heap_byteLength M h1) (data imageData) p then (Inl RangeError, h1)
         else
           let h2 = h1 @ [Heap_set (data imageData) p];
               h3 = h2 @ [Encode p (width imageData) (height imageData) quality];
               h4 = h3 @ [Get_encode_result_pointer];
               resultPointer = get_encode_result_pointer M h4;
               h5 = h4 @ [Get_encode_result_size];
               resultSize = get_encode_result_size M h5
           in if \<not> view_ok (heap_byteLength M h5) resultPointer resultSize
              then (Inl RangeError, h5)
              else
                let result = view_bytes (HEAP8 M h5) resultPointer resultSize;
                    h6 = h5 @ [Free_result resultPointer];
                    h7 = h6 @ [Destroy_buffer p]
                in (Inr (DataURL WEBP result), h7))"

section \<open>The quality loop of \<open>resizeAndConvert\<close>\<close>

text \<open>
  The \<open>while (true)\<close> loop of \<open>resizeAndConvert\<close> (with \<open>useChrome = false\<close>). The result
  \<open>None\<close> stands for a loop that never ends.
\<close>

partial_function (option) quality_loop ::
  "native \<Rightarrow> imageData \<Rightarrow> rat \<Rightarrow> history \<Rightarrow> ((error + data_url) \<times> history) option" where
  "quality_loop M imageData quality h =
     (case convertImageDataToWebpURL M imageData (Math_ceil (js_mul quality 100)) h of
        (Inl e, h') \<Rightarrow> Some (Inl e, h')
      | (Inr webpUrl, h') \<Rightarrow>
          let byteLength = length (payload webpUrl)
          in if byteLength \<le> 100000 then Some (Inr webpUrl, h')
             else
               let quality' = js_sub quality lit_0_08;
                   kb = (byteLength + 1023) div 1024
               in if quality' \<le> lit_0_07 then Some (Inl (ConvertError kb), h')
                  else quality_loop M imageData quality' (h' @ [Console_error kb quality']))"

text \<open>
  The same loop, read as the specification describes it: a fixed list of quality values is
  tried in order, the first result that fits is returned, and when the list is used up the
  conversion fails. \<open>attempts\<close> is compared with \<open>quality_loop\<close> below.
\<close>

fun attempts ::
  "native \<Rightarrow> imageData \<Rightarrow> rat \<Rightarrow> rat list \<Rightarrow> history \<Rightarrow> (error + data_url) \<times> history" where
  "attempts M imageData q rest h =
     (case convertImageDataToWebpURL M imageData (Math_ceil (js_mul q 100)) h of
        (Inl e, h') \<Rightarrow> (Inl e, h')
      | (Inr webpUrl, h') \<Rightarrow>
          if length (payload webpUrl) \<le> 100000 then (Inr webpUrl, h')
          else (case rest of
                  [] \<Rightarrow> (Inl (ConvertError ((length (payload webpUrl) + 1023) div 1024)), h')
                | q' # rest' \<Rightarrow>
                    attempts M imageData q' rest'
                      (h' @ [Console_error ((length (payload webpUrl) + 1023) div 1024) q'])))"

declare attempts.simps [simp del]

text \<open>
  \<open>step_chain q rest\<close>: each value of \<open>rest\<close> is the one before it minus \<open>0.08\<close> (in
  doubles) and lies above \<open>0.07\<close>, and one more step from the last value does not.
\<close>

fun step_chain :: "rat \<Rightarrow> rat list \<Rightarrow> bool" where
  "step_chain q [] \<longleftrightarrow> js_sub q lit_0_08 \<le> lit_0_07"
| "step_chain q (q' # rest) \<longleftrightarrow>
     js_sub q lit_0_08 = q' \<and> \<not> q' \<le> lit_0_07 \<and> step_chain q' rest"

text \<open>The doubles \<open>1 - 0.08\<close>, \<open>1 - 0.08 - 0.08\<close>, ... that the loop reaches after \<open>1.0\<close>.\<close>

definition later_qualities :: "rat list" where
  "later_qualities =
     [8286623314361713 / 9007199254740992,
      3783023686991217 / 4503599627370496,
      6845471433603155 / 9007199254740992,
      1531223873305969 / 2251799813685248,
      5404319552844597 / 9007199254740992,
      2341871806232659 / 4503599627370496,
      7926335344172077 / 18014398509481984,
      3242591731706759 / 9007199254740992,
      5044031582654959 / 18014398509481984,
      225179981368525 / 1125899906842624,
      8646911284551365 / 72057594037927936]"

text \<open>The sequence the specification names: \<open>1.0, 0.92, 0.84, ...\<close> as exact decimals.\<close>

definition decimal_qualities :: "rat list" where
  "decimal_qualities =
     [100 / 100, 92 / 100, 84 / 100, 76 / 100, 68 / 100, 60 / 100,
      52 / 100, 44 / 100, 36 / 100, 28 / 100, 20 / 100, 12 / 100]"

section \<open>Collaborators: Jimp, the canvas, JSZip\<close>

text \<open>
  The raster library and the canvas are parameters. \<open>Jimp_read\<close> is \<open>None\<close> when
  \<open>Jimp.read\<close> rejects. \<open>getImageData\<close> is \<open>dataURLToCanvasContext\<close> followed by
  \<open>context.getImageData(0, 0, canvas.width, canvas.height)\<close>; \<open>png_encode\<close> is the PNG
  encoder behind \<open>getBase64Async(Jimp.MIME_PNG)\<close> and \<open>canvas.toDataURL('image/png')\<close>;
  \<open>draw_number\<close> is the drawing of \<open>addNumberToTray\<close> followed by the PNG encoder.
\<close>

record env =
  Jimp_read :: "bytes \<Rightarrow> imageData option"
  contain :: "imageData \<Rightarrow> int \<Rightarrow> int \<Rightarrow> imageData"
  png_encode :: "imageData \<Rightarrow> bytes"
  getImageData :: "data_url \<Rightarrow> imageData"
  draw_number :: "data_url \<Rightarrow> string \<Rightarrow> bytes"

section \<open>\<open>resizeAndConvert\<close> and \<open>processImageFile\<close>\<close>

definition resizeAndConvert ::
  "env \<Rightarrow> native \<Rightarrow> bytes \<Rightarrow> int \<Rightarrow> bool \<Rightarrow> history \<Rightarrow> ((error + data_url) \<times> history) option"
  where
  "resizeAndConvert E M input px toWebp h =
     (case Jimp_read E input of
        None \<Rightarrow> Some (Inl JimpReadError, h)
      | Some image0 \<Rightarrow>
          let image = contain E image0 px px;
              url = DataURL PNG (png_encode E image)
          in if toWebp then quality_loop M (getImageData E url) 1 h
             else Some (Inr url, h))"

text \<open>
  \<open>processImageFile\<close>: the promise settles only for the types \<open>'tray'\<close> and
  \<open>'stickers'\<close>; for any other type it stays pending (\<open>None\<close>).
\<close>

definition processImageFile ::
  "env \<Rightarrow> native \<Rightarrow> bytes \<Rightarrow> string \<Rightarrow> history \<Rightarrow> ((error + data_url) \<times> history) option"
  where
  "processImageFile E M file type h =
     (if type = ''tray'' then resizeAndConvert E M file 96 False h
      else if type = ''stickers'' then resizeAndConvert E M file 512 True h
      else None)"

section \<open>The decode direction of the bridge\<close>

text \<open>
  After the two releases the decoded pixels go through \<open>new ImageData(result, width, height)\<close>,
  which raises unless both dimensions are positive, and through the canvas to a PNG data URL.
\<close>

definition convertWebpURLToPngURL ::
  "env \<Rightarrow> native \<Rightarrow> data_url \<Rightarrow> history \<Rightarrow> (error + data_url) \<times> history" where
  "convertWebpURLToPngURL E M url h0 =
     (let bytes = payload url;
          len = int (length bytes);
          h1 = h0 @ [Create_buffer_with_size len];
          p = create_buffer_with_size M h1
      in if \<not> heap_set_ok (heap_byteLength M h1) bytes p then (Inl RangeError, h1)
         else
           let h2 = h1 @ [Heap_set bytes p];
               h3 = h2 @ [Decode p len];
               h4 = h3 @ [Get_decode_result_pointer];
               resultPointer = get_decode_result_pointer M h4;
               h5 = h4 @ [Get_decode_result_width];
               w = get_decode_result_width M h5;
               h6 = h5 @ [Get_decode_result_height];
               hg = get_decode_result_height M h6;
               resultSize = w * hg * 4
           in if \<not> view_ok (heap_byteLength M h6) resultPointer resultSize
              then (Inl RangeError, h6)
              else
                let result = view_bytes (HEAP8 M h6) resultPointer resultSize;
                    h7 = h6 @ [Free_result resultPointer];
                    h8 = h7 @ [Destroy_buffer p]
                in if w \<le> 0 \<or> hg \<le> 0 then (Inl ImageDataError, h8)
                   else (Inr (DataURL PNG
                           (png_encode E \<lparr>width = w, height = hg, data = result\<rparr>)), h8))"

section \<open>Pack assembly: \<open>convertImagesToPacks\<close>\<close>

fun show_nat :: "nat \<Rightarrow> string" where
  "show_nat n =
     (if n < 10 then [''0123456789'' ! n]
      else show_nat (n div 10) @ [''0123456789'' ! (n mod 10)])"

declare show_nat.simps [simp del]

definition addNumberToTray :: "env \<Rightarrow> data_url \<Rightarrow> string \<Rightarrow> history \<Rightarrow> data_url \<times> history" where
  "addNumberToTray E url txt h =
     (DataURL PNG (draw_number E url txt), h @ [Add_number_to_tray url txt])"

text \<open>
  \<open>stickersInPack.map((pack, index) => numOfPacks === 1 ? tray : addNumberToTray(tray,
  `${index + 1}`))\<close>, over the indices of \<open>stickersInPack\<close>.
\<close>

fun make_trays ::
  "env \<Rightarrow> data_url \<Rightarrow> nat \<Rightarrow> nat list \<Rightarrow> history \<Rightarrow> data_url list \<times> history" where
  "make_trays E tray numOfPacks [] h = ([], h)"
| "make_trays E tray numOfPacks (index # rest) h =
     (let (t, h') = (if numOfPacks = 1 then (tray, h)
                     else addNumberToTray E tray (show_nat (index + 1)) h);
          (ts, h'') = make_trays E tray numOfPacks rest h'
      in (t # ts, h''))"

datatype emitted = StickerLoad | Load "data_url list" "data_url list list" | Error error

text \<open>
  The \<open>for\<close> loop over \<open>stickersFiles\<close>: \<open>i\<close> is the index of the first file of the list
  still to process. \<open>stickersInPack[Math.floor(i / 30)].push(sticker)\<close> raises a TypeError
  when the index is outside the array. (\<open>Math.floor(i / 30)\<close> and
  \<open>Math.ceil(length / 30)\<close> divide doubles; for an array index or length, which is below
  \<open>2^32\<close>, the results are those of the exact division, which is what is written here.)
\<close>

fun sticker_loop ::
  "env \<Rightarrow> native \<Rightarrow> bytes list \<Rightarrow> nat \<Rightarrow> data_url list list \<Rightarrow> emitted list \<Rightarrow> history
     \<Rightarrow> ((error + data_url list list) \<times> emitted list \<times> history) option" where
  "sticker_loop E M [] i stickersInPack evs h = Some (Inr stickersInPack, evs, h)"
| "sticker_loop E M (file # files) i stickersInPack evs h =
     (case processImageFile E M file ''stickers'' h of
        None \<Rightarrow> None
      | Some (Inl e, h') \<Rightarrow> Some (Inl e, evs, h')
      | Some (Inr sticker, h') \<Rightarrow>
          if i div 30 < length stickersInPack
          then sticker_loop E M files (i + 1)
                 (stickersInPack[i div 30 := stickersInPack ! (i div 30) @ [sticker]])
                 (evs @ [StickerLoad]) h'
          else Some (Inl TypeError, evs @ [StickerLoad], h'))"

text \<open>
  \<open>xs.splice(start)\<close> with one argument removes the elements from the start position to the
  end and returns them; a negative start counts from the end. The result is the pair of the
  removed elements and of what is left in \<open>xs\<close>.
\<close>

definition splice_js :: "'a list \<Rightarrow> int \<Rightarrow> 'a list \<times> 'a list" where
  "splice_js xs start =
     (let len = int (length xs);
          actualStart = (if start < 0 then max (len + start) 0 else min start len)
      in (drop (nat actualStart) xs, take (nat actualStart) xs))"

definition balance :: "nat \<Rightarrow> 'a list list \<Rightarrow> 'a list list" where
  "balance numOfPacks stickersInPack =
     (if numOfPacks > 1 \<and> length (stickersInPack ! (numOfPacks - 1)) < 3
      then
        let (removed, remaining) =
              splice_js (stickersInPack ! (numOfPacks - 2))
                (- (3 - int (length (stickersInPack ! (numOfPacks - 1)))))
        in (stickersInPack[numOfPacks - 2 := remaining])
             [numOfPacks - 1 := removed @ stickersInPack ! (numOfPacks - 1)]
      else stickersInPack)"

definition convertImagesToPacks ::
  "env \<Rightarrow> native \<Rightarrow> bytes \<Rightarrow> bytes list \<Rightarrow> history \<Rightarrow> (emitted list \<times> history) option" where
  "convertImagesToPacks E M trayFile stickersFiles h =
     (case processImageFile E M trayFile ''tray'' h of
        None \<Rightarrow> None
      | Some (Inl e, h1) \<Rightarrow> Some ([Error e], h1)
      | Some (Inr tray, h1) \<Rightarrow>
          let numOfPacks = (length stickersFiles + 29) div 30;
              stickersInPack = replicate numOfPacks [];
              (trays, h2) = make_trays E tray numOfPacks [0..<numOfPacks] h1
          in case sticker_loop E M stickersFiles 0 stickersInPack [] h2 of
               None \<Rightarrow> None
             | Some (Inl e, evs, h3) \<Rightarrow> Some (evs @ [Error e], h3)
             | Some (Inr packs, evs, h3) \<Rightarrow>
                 Some (evs @ [Load trays (balance numOfPacks packs)], h3))"

section \<open>\<open>unzip\<close>\<close>

text \<open>
  A loaded archive is the list of its file entries in iteration order, each with its
  relative path and content; \<open>zip.file(path)\<close> looks an entry up by its path.
  \<open>loadAsync\<close> is \<open>None\<close> when \<open>JSZip.loadAsync\<close> rejects.
\<close>

type_synonym zip = "(string \<times> bytes) list"

definition qualifies :: "string \<Rightarrow> bool" where
  "qualifies relativePath \<longleftrightarrow>
     \<not> prefix ''__MACOSX'' relativePath \<and>
     (suffix ''.png'' relativePath \<or> suffix ''.jpg'' relativePath)"

fun blobs :: "zip \<Rightarrow> string list \<Rightarrow> bytes list option" where
  "blobs z [] = Some []"
| "blobs z (path # paths) =
     (case map_of z path of
        None \<Rightarrow> None
      | Some b \<Rightarrow> (case blobs z paths of None \<Rightarrow> None | Some bs \<Rightarrow> Some (b # bs)))"

record unzipped =
  trayFile :: bytes
  stickersFiles :: "bytes list"

definition unzip :: "(bytes \<Rightarrow> zip option) \<Rightarrow> bytes \<Rightarrow> error + unzipped" where
  "unzip loadAsync input =
     (case loadAsync input of
        None \<Rightarrow> Inl ZipLoadError
      | Some z \<Rightarrow>
          let imagePaths = filter qualifies (map fst z)
          in if length imagePaths < 3 then Inl LessThan3Images
             else (case map_of z (imagePaths ! 0) of
                     None \<Rightarrow> Inl TypeError
                   | Some tray \<Rightarrow>
                       (case blobs z imagePaths of
                          None \<Rightarrow> Inl TypeError
                        | Some stickers \<Rightarrow>
                            Inr \<lparr>trayFile = tray, stickersFiles = stickers\<rparr>)))"

text \<open>The entries of an archive that \<open>unzip\<close> keeps, in iteration order.\<close>

definition qualifying :: "zip \<Rightarrow> zip" where
  "qualifying z = filter (\<lambda>e. qualifies (fst e)) z"

section \<open>Reference definitions for pack assembly\<close>

text \<open>
  The stickers encoded one after the other in input order, stopping at the first failure:
  what the specification calls encoding in original input order.
\<close>

fun process_in_order ::
  "env \<Rightarrow> native \<Rightarrow> bytes list \<Rightarrow> history \<Rightarrow> ((error + data_url list) \<times> history) option" where
  "process_in_order E M [] h = Some (Inr [], h)"
| "process_in_order E M (file # files) h =
     (case processImageFile E M file ''stickers'' h of
        None \<Rightarrow> None
      | Some (Inl e, h') \<Rightarrow> Some (Inl e, h')
      | Some (Inr sticker, h') \<Rightarrow>
          (case process_in_order E M files h' of
             None \<Rightarrow> None
           | Some (Inl e, h'') \<Rightarrow> Some (Inl e, h'')
           | Some (Inr stickers, h'') \<Rightarrow> Some (Inr (sticker # stickers), h'')))"

text \<open>
  The partition of the specification: chunk \<open>i\<close> is \<open>stickers[i * 30 .. i * 30 + 29]\<close>,
  and there are \<open>ceil(N / 30)\<close> chunks.
\<close>

definition chunks :: "nat \<Rightarrow> 'a list \<Rightarrow> 'a list list" where
  "chunks n xs = map (\<lambda>i. take 30 (drop (i * 30) xs)) [0..<n]"

definition chunks30 :: "'a list \<Rightarrow> 'a list list" where
  "chunks30 xs = chunks ((length xs + 29) div 30) xs"

text \<open>The pushes of the loop over \<open>stickersFiles\<close>, without the encoding.\<close>

fun push_all :: "nat \<Rightarrow> 'a list list \<Rightarrow> 'a list \<Rightarrow> 'a list list" where
  "push_all i stickersInPack [] = stickersInPack"
| "push_all i stickersInPack (s # ss) =
     push_all (i + 1) (stickersInPack[i div 30 := stickersInPack ! (i div 30) @ [s]]) ss"

section \<open>Observations on histories, and concrete modules\<close>

definition is_release :: "event \<Rightarrow> bool" where
  "is_release ev = (case ev of Free_result p \<Rightarrow> True | Destroy_buffer p \<Rightarrow> True | _ \<Rightarrow> False)"

definition is_create :: "event \<Rightarrow> bool" where
  "is_create ev =
     (case ev of Create_buffer w h \<Rightarrow> True | Create_buffer_with_size n \<Rightarrow> True | _ \<Rightarrow> False)"

definition is_overlay :: "event \<Rightarrow> bool" where
  "is_overlay ev = (case ev of Add_number_to_tray u t \<Rightarrow> True | _ \<Rightarrow> False)"

fun encode_quality :: "event \<Rightarrow> int list" where
  "encode_quality (Encode p w h q) = [q]"
| "encode_quality _ = []"

definition encode_qualities :: "history \<Rightarrow> int list" where
  "encode_qualities h = concat (map encode_quality h)"

definition tiny_image :: imageData where
  "tiny_image = \<lparr>width = 1, height = 1, data = [0, 0, 0, 0]\<rparr>"

text \<open>
  A module that always places the input buffer at address 0, always reports the result
  region \<open>rp\<close>, \<open>rs\<close> (encode) or \<open>rp\<close>, \<open>w\<close>, \<open>hg\<close> (decode), and whose memory has
  \<open>hl\<close> zero bytes.
\<close>

definition fixed_native :: "int \<Rightarrow> int \<Rightarrow> int \<Rightarrow> int \<Rightarrow> nat \<Rightarrow> native" where
  "fixed_native rp rs w hg hl =
     \<lparr>create_buffer = (\<lambda>_. 0), create_buffer_with_size = (\<lambda>_. 0),
      get_encode_result_pointer = (\<lambda>_. rp), get_encode_result_size = (\<lambda>_. rs),
      get_decode_result_pointer = (\<lambda>_. rp), get_decode_result_width = (\<lambda>_. w),
      get_decode_result_height = (\<lambda>_. hg), heap_byteLength = (\<lambda>_. hl),
      HEAP8 = (\<lambda>_ _. 0)\<rparr>"

text \<open>Every encoding has 100001 bytes.\<close>

definition oversize_native :: native where
  "oversize_native = fixed_native 16 100001 1 1 200000"

text \<open>Every encoding has 4 bytes.\<close>

definition small_native :: native where
  "small_native = fixed_native 16 4 1 1 65536"

text \<open>The encoder records a zero-length result.\<close>

definition zero_native :: native where
  "zero_native = fixed_native 0 0 0 0 65536"

text \<open>The recorded result region ends behind the memory.\<close>

definition outside_native :: native where
  "outside_native = fixed_native 65536 16 2 2 65536"

text \<open>
  Collaborators for the examples: \<open>Jimp.read\<close> rejects the empty file and reads every
  other one as a one-pixel image.
\<close>

definition plain_env :: env where
  "plain_env =
     \<lparr>Jimp_read = (\<lambda>b. if b = [] then None else Some tiny_image),
      contain = (\<lambda>im w h. im\<lparr>width := w, height := h\<rparr>),
      png_encode = data,
      getImageData = (\<lambda>u. tiny_image),
      draw_number = (\<lambda>u t. payload u @ map (\<lambda>c. of_nat (of_char c)) t)\<rparr>"

text \<open>An archive with three qualifying entries among five.\<close>

definition example_zip :: zip where
  "example_zip =
     [(''__MACOSX/a.png'', [9]), (''a.png'', [1]), (''notes.txt'', [3]),
      (''b.jpg'', [2]), (''c.png'', [4])]"

definition example_loadAsync :: "bytes \<Rightarrow> zip option" where
  "example_loadAsync input = Some example_zip"

section \<open>Verification\<close>

subsection \<open>The quality sequence\<close>

lemma step_chain_qualities: "step_chain 1 later_qualities"
  by code_simp

lemma codec_qualities:
  "map (\<lambda>q. Math_ceil (js_mul q 100)) (1 # later_qualities) =
     [100, 92, 85, 77, 69, 61, 53, 45, 37, 29, 21, 13]"
  by code_simp

lemma decimal_codec_qualities:
  "map (\<lambda>q. Math_ceil (js_mul q 100)) decimal_qualities =
     [100, 92, 84, 76, 68, 60, 52, 44, 36, 28, 20, 12]"
  by code_simp

lemma last_codec_quality: "Math_ceil (js_mul (last (1 # later_qualities)) 100) = 13"
  by code_simp

lemma quality_loop_chain:
  "step_chain q rest \<Longrightarrow> quality_loop M imageData q h = Some (attempts M imageData q rest h)"
proof (induction rest arbitrary: q h)
  case Nil
  then show ?case
    by (subst quality_loop.simps, subst attempts.simps)
       (simp add: Let_def split: prod.splits sum.splits)
next
  case (Cons q' rest)
  then show ?case
    by (subst quality_loop.simps, subst attempts.simps)
       (simp add: Let_def split: prod.splits sum.splits)
qed

lemma quality_loop_attempts:
  "quality_loop M imageData 1 h = Some (attempts M imageData 1 later_qualities h)"
  by (rule quality_loop_chain [OF step_chain_qualities])

subsection \<open>The bridge\<close>

lemma length_view_bytes [simp]: "length (view_bytes hp off len) = nat len"
  by (simp add: view_bytes_def)

lemma encode_qualities_simps [simp]:
  "encode_qualities [] = []"
  "encode_qualities (ev # h) = encode_quality ev @ encode_qualities h"
  "encode_qualities (h @ h2) = encode_qualities h @ encode_qualities h2"
  by (simp_all add: encode_qualities_def)

lemma bridge_cases:
  "convertImageDataToWebpURL M imageData q h = (r, h') \<Longrightarrow>
     r = Inl RangeError \<or> (\<exists>bs. r = Inr (DataURL WEBP bs))"
  by (auto simp: convertImageDataToWebpURL_def Let_def split: if_splits)

lemma oversize_bridge:
  "convertImageDataToWebpURL oversize_native tiny_image q h =
     (Inr (DataURL WEBP (view_bytes (\<lambda>_. 0) 16 100001)),
      h @ [Create_buffer 1 1, Heap_set [0, 0, 0, 0] 0, Encode 0 1 1 q,
           Get_encode_result_pointer, Get_encode_result_size, Free_result 16,
           Destroy_buffer 0])"
  by (simp add: convertImageDataToWebpURL_def Let_def oversize_native_def fixed_native_def
      tiny_image_def heap_set_ok_def view_ok_def)

lemma attempts_oversize:
  "fst (attempts oversize_native tiny_image q rest h) = Inl (ConvertError 98) \<and>
   encode_qualities (snd (attempts oversize_native tiny_image q rest h)) =
     encode_qualities h @ map (\<lambda>q. Math_ceil (js_mul q 100)) (q # rest)"
proof (induction rest arbitrary: q h)
  case Nil
  show ?case
    by (subst (1 2) attempts.simps) (simp add: oversize_bridge)
next
  case (Cons q' rest)
  show ?case
    by (subst (1 2) attempts.simps) (simp add: oversize_bridge Cons)
qed

subsection \<open>The quality loop\<close>

lemma attempts_result:
  "attempts M imageData q rest h = (r, h') \<Longrightarrow>
     (case r of
        Inr url \<Rightarrow> mime_of url = WEBP \<and> length (payload url) \<le> 100000
      | Inl e \<Rightarrow>
          e = RangeError \<or>
          (\<exists>url h''.
             convertImageDataToWebpURL M imageData (Math_ceil (js_mul (last (q # rest)) 100)) h''
               = (Inr url, h') \<and>
             100000 < length (payload url) \<and>
             e = ConvertError ((length (payload url) + 1023) div 1024)))"
proof (induction rest arbitrary: q h)
  case Nil
  obtain r0 h0 where b: "convertImageDataToWebpURL M imageData (Math_ceil (js_mul q 100)) h = (r0, h0)"
    by (cases "convertImageDataToWebpURL M imageData (Math_ceil (js_mul q 100)) h")
  from bridge_cases [OF b] Nil b show ?case
    by (subst (asm) attempts.simps) (fastforce split: if_splits)
next
  case (Cons q' rest)
  obtain r0 h0 where b: "convertImageDataToWebpURL M imageData (Math_ceil (js_mul q 100)) h = (r0, h0)"
    by (cases "convertImageDataToWebpURL M imageData (Math_ceil (js_mul q 100)) h")
  show ?case
  proof (cases "\<exists>bs. r0 = Inr (DataURL WEBP bs) \<and> \<not> length bs \<le> 100000")
    case True
    then obtain bs where r0: "r0 = Inr (DataURL WEBP bs)" and big: "\<not> length bs \<le> 100000"
      by blast
    from Cons.prems b r0 big
    have "attempts M imageData q' rest
            (h0 @ [Console_error ((length bs + 1023) div 1024) q']) = (r, h')"
      by (subst (asm) attempts.simps) simp
    from Cons.IH [OF this] have ih: "case r of
        Inr url \<Rightarrow> mime_of url = WEBP \<and> length (payload url) \<le> 100000
      | Inl e \<Rightarrow>
          e = RangeError \<or>
          (\<exists>url h''.
             convertImageDataToWebpURL M imageData (Math_ceil (js_mul (last (q' # rest)) 100)) h''
               = (Inr url, h') \<and>
             100000 < length (payload url) \<and>
             e = ConvertError ((length (payload url) + 1023) div 1024))" .
    have l: "last (q # q' # rest) = last (q' # rest)" by simp
    show ?thesis unfolding l by (rule ih)
  next
    case False
    with bridge_cases [OF b] Cons.prems b show ?thesis
      by (subst (asm) attempts.simps) (auto split: if_splits)
  qed
qed

text \<open>
  Claim C1, as the code has it. From the quality \<open>1.0\<close> the loop always ends. When it
  returns a data URL, that is a WebP URL of at most 100000 bytes. When it fails, the error is
  either a RangeError of the bridge, or the conversion error, which carries the byte length
  of the last attempt (the one at codec quality 13) divided by 1024 and rounded up: the
  message reads \<open>WebP size <kb>kb exceeded 100kb\<close>. No result has more than 100000 bytes.
\<close>

theorem quality_loop_size_invariant:
  "\<exists>r h'. quality_loop M imageData 1 h = Some (r, h') \<and>
     (case r of
        Inr url \<Rightarrow> mime_of url = WEBP \<and> length (payload url) \<le> 100000
      | Inl e \<Rightarrow>
          e = RangeError \<or>
          (\<exists>url h''.
             convertImageDataToWebpURL M imageData 13 h'' = (Inr url, h') \<and>
             100000 < length (payload url) \<and>
             e = ConvertError ((length (payload url) + 1023) div 1024)))"
proof -
  obtain r h' where a: "attempts M imageData 1 later_qualities h = (r, h')"
    by (cases "attempts M imageData 1 later_qualities h")
  from attempts_result [OF a] show ?thesis
    unfolding last_codec_quality quality_loop_attempts a by blast
qed

text \<open>
  Claim C1 as stated fails: with a module whose every encoding has 100001 bytes, the error
  carries 98, the size in units of 1024 bytes rounded up, and not the byte length 100001.
\<close>

theorem quality_loop_error_counterexample:
  "map_option fst (quality_loop oversize_native tiny_image 1 []) = Some (Inl (ConvertError 98)) \<and>
   map_sum id (length \<circ> payload) (fst (convertImageDataToWebpURL oversize_native tiny_image 13 []))
     = Inr 100001"
  using attempts_oversize [of 1 later_qualities "[]"]
  by (simp add: quality_loop_attempts oversize_bridge)

text \<open>
  Claim C3, as the code has it. The loop is the trial of a fixed sequence of qualities: it
  starts at \<open>1.0\<close>, each later value is the one before minus \<open>0.08\<close> in double
  arithmetic, the first result that fits ends it, and after the twelfth value, when the next
  one would be at most \<open>0.07\<close>, it fails. Each value is multiplied by 100 (in doubles) and
  rounded up for the bridge, which therefore receives 100, 92, 85, 77, 69, 61, 53, 45, 37,
  29, 21, 13.
\<close>

theorem quality_sequence:
  "quality_loop M imageData 1 h = Some (attempts M imageData 1 later_qualities h) \<and>
   step_chain 1 later_qualities \<and>
   map (\<lambda>q. Math_ceil (js_mul q 100)) (1 # later_qualities) =
     [100, 92, 85, 77, 69, 61, 53, 45, 37, 29, 21, 13]"
  using quality_loop_attempts step_chain_qualities codec_qualities by blast

text \<open>
  Claim C3 as stated fails: with a module whose every encoding is too large, the bridge
  receives 85 at the third attempt, not 84, and so on down to 13, not 12: the loop is not the
  trial of \<open>1.0, 0.92, 0.84, ...\<close> taken as exact decimals.
\<close>

theorem quality_sequence_counterexample:
  "map_option (encode_qualities \<circ> snd) (quality_loop oversize_native tiny_image 1 []) =
     Some [100, 92, 85, 77, 69, 61, 53, 45, 37, 29, 21, 13] \<and>
   (encode_qualities \<circ> snd) (attempts oversize_native tiny_image (hd decimal_qualities)
      (tl decimal_qualities) []) = [100, 92, 84, 76, 68, 60, 52, 44, 36, 28, 20, 12] \<and>
   quality_loop oversize_native tiny_image 1 [] \<noteq>
     Some (attempts oversize_native tiny_image (hd decimal_qualities) (tl decimal_qualities) [])"
proof -
  have a: "(encode_qualities \<circ> snd) (attempts oversize_native tiny_image 1 later_qualities []) =
      [100, 92, 85, 77, 69, 61, 53, 45, 37, 29, 21, 13]"
    using attempts_oversize [of 1 later_qualities "[]"] codec_qualities by simp
  have d: "decimal_qualities = hd decimal_qualities # tl decimal_qualities"
    by (simp add: decimal_qualities_def)
  have b: "(encode_qualities \<circ> snd) (attempts oversize_native tiny_image (hd decimal_qualities)
      (tl decimal_qualities) []) = [100, 92, 84, 76, 68, 60, 52, 44, 36, 28, 20, 12]"
    using attempts_oversize [of "hd decimal_qualities" "tl decimal_qualities" "[]"]
      decimal_codec_qualities d by simp
  have c: "attempts oversize_native tiny_image 1 later_qualities [] \<noteq>
      attempts oversize_native tiny_image (hd decimal_qualities) (tl decimal_qualities) []"
  proof
    assume "attempts oversize_native tiny_image 1 later_qualities [] =
      attempts oversize_native tiny_image (hd decimal_qualities) (tl decimal_qualities) []"
    with a b show False by simp
  qed
  show ?thesis using a b c by (simp add: quality_loop_attempts)
qed

text \<open>
  The theorem of claim C1 at a module whose encodings have 4 bytes.
\<close>

theorem quality_loop_size_invariant_witness:
  "\<exists>r h'. quality_loop small_native tiny_image 1 [] = Some (r, h') \<and>
     (case r of
        Inr url \<Rightarrow> mime_of url = WEBP \<and> length (payload url) \<le> 100000
      | Inl e \<Rightarrow>
          e = RangeError \<or>
          (\<exists>url h''.
             convertImageDataToWebpURL small_native tiny_image 13 h'' = (Inr url, h') \<and>
             100000 < length (payload url) \<and>
             e = ConvertError ((length (payload url) + 1023) div 1024)))"
  by (rule quality_loop_size_invariant)

text \<open>
  The theorem of claim C3 at a module whose encodings have 4 bytes.
\<close>

theorem quality_sequence_witness:
  "quality_loop small_native tiny_image 1 [] =
     Some (attempts small_native tiny_image 1 later_qualities []) \<and>
   step_chain 1 later_qualities \<and>
   map (\<lambda>q. Math_ceil (js_mul q 100)) (1 # later_qualities) =
     [100, 92, 85, 77, 69, 61, 53, 45, 37, 29, 21, 13]"
  by (rule quality_sequence)

subsection \<open>Releases and errors of the bridge\<close>

lemma filter_release_simps [simp]:
  "is_release (Free_result p)" "is_release (Destroy_buffer p)"
  "\<not> is_release (Create_buffer w hg)" "\<not> is_release (Create_buffer_with_size n)"
  "\<not> is_release (Heap_set bs p)" "\<not> is_release (Encode p w hg q)" "\<not> is_release (Decode p l)"
  "\<not> is_release Get_encode_result_pointer" "\<not> is_release Get_encode_result_size"
  "\<not> is_release Get_decode_result_pointer" "\<not> is_release Get_decode_result_width"
  "\<not> is_release Get_decode_result_height" "\<not> is_release (Console_error k r)"
  "\<not> is_release (Add_number_to_tray u t)"
  by (simp_all add: is_release_def)

lemma filter_create_simps [simp]:
  "\<not> is_create (Free_result p)" "\<not> is_create (Destroy_buffer p)"
  "is_create (Create_buffer w hg)" "is_create (Create_buffer_with_size n)"
  "\<not> is_create (Heap_set bs p)" "\<not> is_create (Encode p w hg q)" "\<not> is_create (Decode p l)"
  "\<not> is_create Get_encode_result_pointer" "\<not> is_create Get_encode_result_size"
  "\<not> is_create Get_decode_result_pointer" "\<not> is_create Get_decode_result_width"
  "\<not> is_create Get_decode_result_height" "\<not> is_create (Console_error k r)"
  "\<not> is_create (Add_number_to_tray u t)"
  by (simp_all add: is_create_def)

lemma encode_releases:
  "(let h1 = h @ [Create_buffer (width imageData) (height imageData)];
        p = create_buffer M h1;
        h4 = h1 @ [Heap_set (data imageData) p,
                   Encode p (width imageData) (height imageData) q,
                   Get_encode_result_pointer]
    in case convertImageDataToWebpURL M imageData q h of
         (r, h') \<Rightarrow>
           \<exists>evs. h' = h @ evs \<and>
             filter is_create evs = [Create_buffer (width imageData) (height imageData)] \<and>
             filter is_release evs =
               (if r = Inl RangeError then []
                else [Free_result (get_encode_result_pointer M h4), Destroy_buffer p]))"
  by (simp add: convertImageDataToWebpURL_def Let_def)

lemma decode_releases:
  "(let bytes = payload url;
        h1 = h @ [Create_buffer_with_size (int (length bytes))];
        p = create_buffer_with_size M h1;
        h4 = h1 @ [Heap_set bytes p, Decode p (int (length bytes)), Get_decode_result_pointer]
    in case convertWebpURLToPngURL E M url h of
         (r, h') \<Rightarrow>
           \<exists>evs. h' = h @ evs \<and>
             filter is_create evs = [Create_buffer_with_size (int (length bytes))] \<and>
             filter is_release evs =
               (if r = Inl RangeError then []
                else [Free_result (get_decode_result_pointer M h4), Destroy_buffer p]))"
  by (simp add: convertWebpURLToPngURL_def Let_def)

text \<open>
  Claim C2, as the code has it. The calls into the module are taken to return. An encode
  call and a decode call each create one input buffer. When no typed-array access raises,
  exactly two releases are made: first \<open>free_result\<close> on the result pointer that the module
  reported, then \<open>destroy_buffer\<close> on the input buffer that the call created. When
  \<open>HEAP8.set\<close> or the construction of the result view raises a RangeError, the call ends
  without any release.
\<close>

theorem bridge_releases:
  "(let h1 = h @ [Create_buffer (width imageData) (height imageData)];
        p = create_buffer M h1;
        h4 = h1 @ [Heap_set (data imageData) p,
                   Encode p (width imageData) (height imageData) q,
                   Get_encode_result_pointer]
    in case convertImageDataToWebpURL M imageData q h of
         (r, h') \<Rightarrow>
           \<exists>evs. h' = h @ evs \<and>
             filter is_create evs = [Create_buffer (width imageData) (height imageData)] \<and>
             filter is_release evs =
               (if r = Inl RangeError then []
                else [Free_result (get_encode_result_pointer M h4), Destroy_buffer p]))
   \<and>
   (let bytes = payload url;
        h1 = h @ [Create_buffer_with_size (int (length bytes))];
        p = create_buffer_with_size M h1;
        h4 = h1 @ [Heap_set bytes p, Decode p (int (length bytes)), Get_decode_result_pointer]
    in case convertWebpURLToPngURL E M url h of
         (r, h') \<Rightarrow>
           \<exists>evs. h' = h @ evs \<and>
             filter is_create evs = [Create_buffer_with_size (int (length bytes))] \<and>
             filter is_release evs =
               (if r = Inl RangeError then []
                else [Free_result (get_decode_result_pointer M h4), Destroy_buffer p]))"
  by (rule conjI [OF encode_releases decode_releases])

text \<open>
  Claim C2 as stated fails: when the module records a result region that ends behind its
  memory, the copy-out raises and neither the result region nor the input buffer is
  released, in the encode call and in the decode call.
\<close>

theorem bridge_releases_counterexample:
  "convertImageDataToWebpURL outside_native tiny_image 100 [] =
     (Inl RangeError,
      [Create_buffer 1 1, Heap_set [0, 0, 0, 0] 0, Encode 0 1 1 100,
       Get_encode_result_pointer, Get_encode_result_size]) \<and>
   filter is_release (snd (convertImageDataToWebpURL outside_native tiny_image 100 [])) = [] \<and>
   convertWebpURLToPngURL plain_env outside_native (DataURL WEBP [82, 73]) [] =
     (Inl RangeError,
      [Create_buffer_with_size 2, Heap_set [82, 73] 0, Decode 0 2,
       Get_decode_result_pointer, Get_decode_result_width, Get_decode_result_height]) \<and>
   filter is_release (snd (convertWebpURLToPngURL plain_env outside_native (DataURL WEBP [82, 73]) []))
     = []"
  by (simp add: convertImageDataToWebpURL_def convertWebpURLToPngURL_def Let_def
      outside_native_def fixed_native_def tiny_image_def heap_set_ok_def view_ok_def)

text \<open>
  The theorem of claim C2 at a module whose results lie inside its memory: both calls end
  with \<open>free_result\<close> on the reported result pointer 16 and \<open>destroy_buffer\<close> on the
  input buffer 0.
\<close>

theorem bridge_releases_witness:
  "((let h1 = [] @ [Create_buffer (width tiny_image) (height tiny_image)];
        p = create_buffer small_native h1;
        h4 = h1 @ [Heap_set (data tiny_image) p,
                   Encode p (width tiny_image) (height tiny_image) 100,
                   Get_encode_result_pointer]
    in case convertImageDataToWebpURL small_native tiny_image 100 [] of
         (r, h') \<Rightarrow>
           \<exists>evs. h' = [] @ evs \<and>
             filter is_create evs = [Create_buffer (width tiny_image) (height tiny_image)] \<and>
             filter is_release evs =
               (if r = Inl RangeError then []
                else [Free_result (get_encode_result_pointer small_native h4), Destroy_buffer p]))
   \<and>
   (let bytes = payload (DataURL WEBP [82, 73]);
        h1 = [] @ [Create_buffer_with_size (int (length bytes))];
        p = create_buffer_with_size small_native h1;
        h4 = h1 @ [Heap_set bytes p, Decode p (int (length bytes)), Get_decode_result_pointer]
    in case convertWebpURLToPngURL plain_env small_native (DataURL WEBP [82, 73]) [] of
         (r, h') \<Rightarrow>
           \<exists>evs. h' = [] @ evs \<and>
             filter is_create evs = [Create_buffer_with_size (int (length bytes))] \<and>
             filter is_release evs =
               (if r = Inl RangeError then []
                else [Free_result (get_decode_result_pointer small_native h4), Destroy_buffer p]))) \<and>
   snd (convertImageDataToWebpURL small_native tiny_image 100 []) =
     [Create_buffer 1 1, Heap_set [0, 0, 0, 0] 0, Encode 0 1 1 100,
      Get_encode_result_pointer, Get_encode_result_size, Free_result 16, Destroy_buffer 0] \<and>
   snd (convertWebpURLToPngURL plain_env small_native (DataURL WEBP [82, 73]) []) =
     [Create_buffer_with_size 2, Heap_set [82, 73] 0, Decode 0 2,
      Get_decode_result_pointer, Get_decode_result_width, Get_decode_result_height,
      Free_result 16, Destroy_buffer 0]"
proof (rule conjI [OF bridge_releases])
  show "snd (convertImageDataToWebpURL small_native tiny_image 100 []) =
     [Create_buffer 1 1, Heap_set [0, 0, 0, 0] 0, Encode 0 1 1 100,
      Get_encode_result_pointer, Get_encode_result_size, Free_result 16, Destroy_buffer 0] \<and>
   snd (convertWebpURLToPngURL plain_env small_native (DataURL WEBP [82, 73]) []) =
     [Create_buffer_with_size 2, Heap_set [82, 73] 0, Decode 0 2,
      Get_decode_result_pointer, Get_decode_result_width, Get_decode_result_height,
      Free_result 16, Destroy_buffer 0]"
    by (simp add: convertImageDataToWebpURL_def convertWebpURLToPngURL_def Let_def
        small_native_def fixed_native_def tiny_image_def heap_set_ok_def view_ok_def)
qed

text \<open>
  Claim C8, as the code has it. The encode call has no check of what the module did: when
  the input fits into the memory and the recorded result region lies inside it, the call
  returns a WebP data URL of the bytes of that region, and a RangeError otherwise. For a
  recorded size of zero it returns a data URL with an empty payload.
\<close>

theorem encode_no_codec_error:
  "(let h1 = h @ [Create_buffer (width imageData) (height imageData)];
        p = create_buffer M h1;
        h4 = h1 @ [Heap_set (data imageData) p,
                   Encode p (width imageData) (height imageData) q,
                   Get_encode_result_pointer];
        h5 = h4 @ [Get_encode_result_size];
        rp = get_encode_result_pointer M h4;
        rs = get_encode_result_size M h5;
        in_bounds = (heap_set_ok (heap_byteLength M h1) (data imageData) p \<and>
                     view_ok (heap_byteLength M h5) rp rs)
    in fst (convertImageDataToWebpURL M imageData q h) =
         (if in_bounds then Inr (DataURL WEBP (view_bytes (HEAP8 M h5) rp rs))
          else Inl RangeError) \<and>
       (in_bounds \<and> rs = 0 \<longrightarrow>
          fst (convertImageDataToWebpURL M imageData q h) = Inr (DataURL WEBP [])))"
  by (auto simp: convertImageDataToWebpURL_def Let_def view_bytes_def)

text \<open>
  The theorem of claim C8 at a module that records a zero-length result.
\<close>

theorem encode_no_codec_error_witness:
  "get_encode_result_size zero_native
     [Create_buffer 1 1, Heap_set [0, 0, 0, 0] 0, Encode 0 1 1 100,
      Get_encode_result_pointer, Get_encode_result_size] = 0 \<and>
   fst (convertImageDataToWebpURL zero_native tiny_image 100 []) = Inr (DataURL WEBP [])"
  using encode_no_codec_error [of "[]" tiny_image zero_native 100]
  by (simp add: Let_def zero_native_def fixed_native_def tiny_image_def heap_set_ok_def
      view_ok_def view_bytes_def)

text \<open>
  Claim C8 as stated fails: the module records a zero-length result and the encode call
  returns a data URL, built from that result, instead of failing.
\<close>

theorem encode_no_codec_error_counterexample:
  "get_encode_result_size zero_native
     [Create_buffer 1 1, Heap_set [0, 0, 0, 0] 0, Encode 0 1 1 100,
      Get_encode_result_pointer, Get_encode_result_size] = 0 \<and>
   convertImageDataToWebpURL zero_native tiny_image 100 [] =
     (Inr (DataURL WEBP []),
      [Create_buffer 1 1, Heap_set [0, 0, 0, 0] 0, Encode 0 1 1 100,
       Get_encode_result_pointer, Get_encode_result_size, Free_result 0, Destroy_buffer 0])"
  by (simp add: convertImageDataToWebpURL_def Let_def zero_native_def fixed_native_def
      tiny_image_def heap_set_ok_def view_ok_def view_bytes_def)

subsection \<open>Chunks\<close>

lemma div30_bounds: "(L::nat) div 30 * 30 \<le> L \<and> L < L div 30 * 30 + 30"
  using div_mult_mod_eq [of L 30] mod_less_divisor [of 30 L] by linarith

lemma chunks_Nil: "chunks n [] = replicate n []"
  by (simp add: chunks_def map_replicate_const)

lemma length_chunks [simp]: "length (chunks n xs) = n"
  by (simp add: chunks_def)

lemma nth_chunks: "j < n \<Longrightarrow> chunks n xs ! j = take 30 (drop (j * 30) xs)"
  by (simp add: chunks_def)

lemma chunks_push:
  assumes "length xs div 30 < n"
  shows "(chunks n xs)[length xs div 30 := chunks n xs ! (length xs div 30) @ [s]]
           = chunks n (xs @ [s])"
proof (rule nth_equalityI)
  show "length ((chunks n xs)[length xs div 30 := chunks n xs ! (length xs div 30) @ [s]])
          = length (chunks n (xs @ [s]))"
    by simp
next
  fix j
  assume "j < length ((chunks n xs)[length xs div 30 := chunks n xs ! (length xs div 30) @ [s]])"
  then have j: "j < n" by simp
  show "(chunks n xs)[length xs div 30 := chunks n xs ! (length xs div 30) @ [s]] ! j
          = chunks n (xs @ [s]) ! j"
  proof (cases "j = length xs div 30")
    case True
    then have a: "j * 30 \<le> length xs" and b: "length xs - j * 30 < 30"
      using div30_bounds [of "length xs"] by linarith+
    from True j a b show ?thesis
      by (simp add: nth_chunks)
  next
    case False
    then consider "j < length xs div 30" | "length xs div 30 < j" by linarith
    then show ?thesis
    proof cases
      case 1
      then have "j * 30 + 30 \<le> length xs"
        using div30_bounds [of "length xs"] by linarith
      with False j show ?thesis by (simp add: nth_chunks)
    next
      case 2
      then have "length xs < j * 30"
        using div30_bounds [of "length xs"] by linarith
      with False j show ?thesis by (simp add: nth_chunks)
    qed
  qed
qed

lemma push_all_chunks:
  "length xs + length ss \<le> n * 30 \<Longrightarrow>
     push_all (length xs) (chunks n xs) ss = chunks n (xs @ ss)"
proof (induction ss arbitrary: xs)
  case Nil
  then show ?case by simp
next
  case (Cons s ss)
  from Cons.prems have "length xs div 30 < n" by simp
  from chunks_push [OF this, of s] Cons.IH [of "xs @ [s]"] Cons.prems show ?case
    by simp
qed

lemma push_all_chunks30:
  "push_all 0 (replicate ((length ss + 29) div 30) []) ss = chunks30 ss"
proof -
  have "length ss \<le> (length ss + 29) div 30 * 30"
    using div30_bounds [of "length ss + 29"] by linarith
  from push_all_chunks [of "[]" ss "(length ss + 29) div 30"] this show ?thesis
    by (simp add: chunks_Nil chunks30_def)
qed

lemma concat_chunks: "concat (chunks n xs) = take (n * 30) xs"
proof (induction n)
  case 0
  then show ?case by (simp add: chunks_def)
next
  case (Suc n)
  have c: "chunks (Suc n) xs = chunks n xs @ [take 30 (drop (n * 30) xs)]"
    by (simp add: chunks_def)
  have t: "take (n * 30 + 30) xs = take (n * 30) xs @ take 30 (drop (n * 30) xs)"
    by (rule take_add)
  have m: "Suc n * 30 = n * 30 + 30" by simp
  show ?case unfolding m t c using Suc by simp
qed

lemma concat_chunks30: "concat (chunks30 xs) = xs"
proof -
  have "length xs \<le> (length xs + 29) div 30 * 30"
    using div30_bounds [of "length xs + 29"] by linarith
  then show ?thesis by (simp add: chunks30_def concat_chunks)
qed

lemma length_chunks30: "length (chunks30 xs) = (length xs + 29) div 30"
  by (simp add: chunks30_def)

lemma length_nth_chunks30:
  "j < (length xs + 29) div 30 \<Longrightarrow>
     length (chunks30 xs ! j) = (if j + 1 < (length xs + 29) div 30 then 30 else length xs - j * 30)"
  by (simp add: chunks30_def nth_chunks)

subsection \<open>Processing the files\<close>

lemma is_overlay_simps [simp]:
  "\<not> is_overlay (Free_result p)" "\<not> is_overlay (Destroy_buffer p)"
  "\<not> is_overlay (Create_buffer w hg)" "\<not> is_overlay (Create_buffer_with_size n)"
  "\<not> is_overlay (Heap_set bs p)" "\<not> is_overlay (Encode p w hg q)" "\<not> is_overlay (Decode p l)"
  "\<not> is_overlay Get_encode_result_pointer" "\<not> is_overlay Get_encode_result_size"
  "\<not> is_overlay Get_decode_result_pointer" "\<not> is_overlay Get_decode_result_width"
  "\<not> is_overlay Get_decode_result_height" "\<not> is_overlay (Console_error k r)"
  "is_overlay (Add_number_to_tray u t)"
  by (simp_all add: is_overlay_def)

lemma bridge_history:
  "\<exists>evs. snd (convertImageDataToWebpURL M imageData q h) = h @ evs \<and> filter is_overlay evs = []"
  by (simp add: convertImageDataToWebpURL_def Let_def)

lemma attempts_history:
  "\<exists>evs. snd (attempts M imageData q rest h) = h @ evs \<and> filter is_overlay evs = []"
proof (induction rest arbitrary: q h)
  case Nil
  obtain r0 h0 where b: "convertImageDataToWebpURL M imageData (Math_ceil (js_mul q 100)) h = (r0, h0)"
    by (cases "convertImageDataToWebpURL M imageData (Math_ceil (js_mul q 100)) h")
  from bridge_history [of M imageData "Math_ceil (js_mul q 100)" h] b show ?case
    by (subst attempts.simps) (auto split: sum.splits)
next
  case (Cons q' rest)
  obtain r0 h0 where b: "convertImageDataToWebpURL M imageData (Math_ceil (js_mul q 100)) h = (r0, h0)"
    by (cases "convertImageDataToWebpURL M imageData (Math_ceil (js_mul q 100)) h")
  from bridge_history [of M imageData "Math_ceil (js_mul q 100)" h] b
  obtain evs0 where h0: "h0 = h @ evs0" and f0: "filter is_overlay evs0 = []" by auto
  show ?case
  proof (cases "\<exists>u. r0 = Inr u \<and> \<not> length (payload u) \<le> 100000")
    case True
    then obtain u where u: "r0 = Inr u" "\<not> length (payload u) \<le> 100000" by blast
    let ?c = "Console_error ((length (payload u) + 1023) div 1024) q'"
    from Cons [of q' "h0 @ [?c]"] obtain evs where
      e: "snd (attempts M imageData q' rest (h0 @ [?c])) = (h0 @ [?c]) @ evs"
      and f: "filter is_overlay evs = []" by blast
    have "snd (attempts M imageData q (q' # rest) h) = snd (attempts M imageData q' rest (h0 @ [?c]))"
      using b u by (subst attempts.simps) simp
    with e f h0 f0 show ?thesis by simp
  next
    case False
    with b h0 f0 show ?thesis
      by (subst attempts.simps) (auto split: sum.splits)
  qed
qed

lemma process_sticker:
  "\<exists>r h'. processImageFile E M file ''stickers'' h = Some (r, h') \<and>
     (\<exists>evs. h' = h @ evs \<and> filter is_overlay evs = []) \<and>
     (\<forall>s. r = Inr s \<longrightarrow> mime_of s = WEBP \<and> length (payload s) \<le> 100000)"
proof (cases "Jimp_read E file")
  case None
  then show ?thesis by (simp add: processImageFile_def resizeAndConvert_def)
next
  case (Some img)
  let ?d = "getImageData E (DataURL PNG (png_encode E (contain E img 512 512)))"
  obtain r h' where a: "attempts M ?d 1 later_qualities h = (r, h')"
    by (cases "attempts M ?d 1 later_qualities h")
  from attempts_result [OF a] have "\<forall>s. r = Inr s \<longrightarrow> mime_of s = WEBP \<and> length (payload s) \<le> 100000"
    by auto
  moreover from attempts_history [of M ?d 1 later_qualities h] a
  have "\<exists>evs. h' = h @ evs \<and> filter is_overlay evs = []" by simp
  ultimately show ?thesis using Some a
    by (simp add: processImageFile_def resizeAndConvert_def Let_def quality_loop_attempts)
qed

lemma process_tray:
  "processImageFile E M file ''tray'' h =
     (case Jimp_read E file of
        None \<Rightarrow> Some (Inl JimpReadError, h)
      | Some img \<Rightarrow> Some (Inr (DataURL PNG (png_encode E (contain E img 96 96))), h))"
  by (simp add: processImageFile_def resizeAndConvert_def Let_def split: option.splits)

lemma process_in_order_result:
  "process_in_order E M files h = Some (Inr ss, h') \<Longrightarrow>
     length ss = length files \<and>
     (\<forall>s \<in> set ss. mime_of s = WEBP \<and> length (payload s) \<le> 100000) \<and>
     (\<exists>evs. h' = h @ evs \<and> filter is_overlay evs = [])"
proof (induction files arbitrary: h ss)
  case Nil
  then show ?case by simp
next
  case (Cons file0 files)
  from process_sticker [of E M file0 h] obtain r h1 evs1 where
    p: "processImageFile E M file0 ''stickers'' h = Some (r, h1)"
    and h1: "h1 = h @ evs1" "filter is_overlay evs1 = []"
    and s: "\<forall>s. r = Inr s \<longrightarrow> mime_of s = WEBP \<and> length (payload s) \<le> 100000"
    by blast
  from Cons.prems p obtain s ss' where
    r: "r = Inr s" and rest: "process_in_order E M files h1 = Some (Inr ss', h')"
    and ss: "ss = s # ss'"
    by (auto split: sum.splits option.splits)
  from Cons.IH [OF rest] r s ss h1 show ?case by auto
qed

lemma process_in_order_total:
  "\<exists>r h'. process_in_order E M files h = Some (r, h')"
proof (induction files arbitrary: h)
  case Nil
  then show ?case by simp
next
  case (Cons file0 files)
  from process_sticker [of E M file0 h] obtain r h1 where
    p: "processImageFile E M file0 ''stickers'' h = Some (r, h1)" by blast
  from Cons [of h1] p show ?case
    by (cases r) (auto split: sum.splits)
qed

lemma sticker_loop_events:
  "sticker_loop E M files i sip evs h = Some (r, evs', h') \<Longrightarrow>
     \<exists>k. evs' = evs @ replicate k StickerLoad"
proof (induction files arbitrary: i sip evs h)
  case Nil
  then show ?case by simp
next
  case (Cons file0 files)
  show ?case
  proof (cases "\<exists>s h1. processImageFile E M file0 ''stickers'' h = Some (Inr s, h1)
                  \<and> i div 30 < length sip")
    case True
    then obtain s h1 where p: "processImageFile E M file0 ''stickers'' h = Some (Inr s, h1)"
      and i: "i div 30 < length sip" by blast
    from Cons.prems p i
    have "sticker_loop E M files (i + 1) (sip[i div 30 := sip ! (i div 30) @ [s]])
            (evs @ [StickerLoad]) h1 = Some (r, evs', h')"
      by simp
    from Cons.IH [OF this] obtain k where "evs' = (evs @ [StickerLoad]) @ replicate k StickerLoad"
      by blast
    then have "evs' = evs @ replicate (Suc k) StickerLoad" by simp
    then show ?thesis by blast
  next
    case False
    with Cons.prems have "evs' = evs \<or> evs' = evs @ [StickerLoad]"
      by (auto split: option.splits sum.splits if_splits)
    then show ?thesis
    proof
      assume "evs' = evs"
      then have "evs' = evs @ replicate 0 StickerLoad" by simp
      then show ?thesis by blast
    next
      assume "evs' = evs @ [StickerLoad]"
      then have "evs' = evs @ replicate 1 StickerLoad" by simp
      then show ?thesis by blast
    qed
  qed
qed

lemma sticker_loop_Inr:
  "sticker_loop E M files i sip evs h = Some (Inr packs, evs', h') \<Longrightarrow>
     \<exists>ss. process_in_order E M files h = Some (Inr ss, h') \<and> packs = push_all i sip ss"
proof (induction files arbitrary: i sip evs h)
  case Nil
  then show ?case by simp
next
  case (Cons file0 files)
  from Cons.prems obtain s h1 where
    p: "processImageFile E M file0 ''stickers'' h = Some (Inr s, h1)"
    and i: "i div 30 < length sip"
    and rest: "sticker_loop E M files (i + 1) (sip[i div 30 := sip ! (i div 30) @ [s]])
                 (evs @ [StickerLoad]) h1 = Some (Inr packs, evs', h')"
    by (auto split: option.splits sum.splits if_splits)
  from Cons.IH [OF rest] p show ?case by auto
qed

lemma sticker_loop_success:
  "process_in_order E M files h = Some (Inr ss, h') \<Longrightarrow> i + length files \<le> length sip * 30 \<Longrightarrow>
     sticker_loop E M files i sip evs h =
       Some (Inr (push_all i sip ss), evs @ replicate (length files) StickerLoad, h')"
proof (induction files arbitrary: i sip evs h ss)
  case Nil
  then show ?case by simp
next
  case (Cons file0 files)
  from Cons.prems(1) obtain s h1 ss' where
    p: "processImageFile E M file0 ''stickers'' h = Some (Inr s, h1)"
    and rest: "process_in_order E M files h1 = Some (Inr ss', h')"
    and ss: "ss = s # ss'"
    by (auto split: option.splits sum.splits)
  from Cons.prems(2) have i: "i div 30 < length sip" by simp
  from Cons.prems(2)
  have "(i + 1) + length files \<le> length (sip[i div 30 := sip ! (i div 30) @ [s]]) * 30"
    by simp
  from Cons.IH [OF rest this, of "evs @ [StickerLoad]"] p i ss show ?case
    by (simp add: replicate_append_same)
qed

subsection \<open>Balancing and the structure of a run\<close>

lemma make_trays_eq:
  "make_trays E tray n idxs h =
     (if n = 1 then (map (\<lambda>i. tray) idxs, h)
      else (map (\<lambda>i. DataURL PNG (draw_number E tray (show_nat (i + 1)))) idxs,
            h @ map (\<lambda>i. Add_number_to_tray tray (show_nat (i + 1))) idxs))"
  by (induction idxs arbitrary: h) (simp_all add: addNumberToTray_def)

lemma last_two:
  assumes "length cs = n" and "2 \<le> n"
  shows "cs = take (n - 2) cs @ [cs ! (n - 2), cs ! (n - 1)]"
proof -
  from assms have i: "n - 2 < length cs" and j: "Suc (n - 2) < length cs" by simp_all
  from assms have s: "Suc (Suc (n - 2)) = n" and t: "Suc (n - 2) = n - 1" by simp_all
  have "cs = take (n - 2) cs @ cs ! (n - 2) # drop (Suc (n - 2)) cs"
    by (rule id_take_nth_drop [OF i])
  also have "drop (Suc (n - 2)) cs = cs ! Suc (n - 2) # drop (Suc (Suc (n - 2))) cs"
    by (rule Cons_nth_drop_Suc [OF j, symmetric])
  also have "drop (Suc (Suc (n - 2))) cs = []"
    unfolding s using assms by simp
  finally show ?thesis unfolding t .
qed

lemma update_last_two:
  assumes "length cs = n" and "2 \<le> n"
  shows "(cs[n - 2 := a])[n - 1 := b] = take (n - 2) cs @ [a, b]"
proof -
  let ?pre = "take (n - 2) cs"
  from assms have l: "length ?pre = n - 2" by simp
  from last_two [OF assms] have "cs = ?pre @ [cs ! (n - 2), cs ! (n - 1)]" .
  then have "(cs[n - 2 := a])[n - 1 := b]
      = ((?pre @ [cs ! (n - 2), cs ! (n - 1)])[n - 2 := a])[n - 1 := b]" by simp
  also from assms l have "\<dots> = ?pre @ [a, b]"
    by (auto simp: list_update_append)
  finally show ?thesis .
qed

lemma balance_moved:
  assumes "length cs = n" and "1 < n" and "length (cs ! (n - 1)) < 3"
  shows "balance n cs =
           take (n - 2) cs @
             [take (length (cs ! (n - 2)) - (3 - length (cs ! (n - 1)))) (cs ! (n - 2)),
              drop (length (cs ! (n - 2)) - (3 - length (cs ! (n - 1)))) (cs ! (n - 2))
                @ cs ! (n - 1)]"
proof -
  have "nat (max (int (length (cs ! (n - 2))) + - (3 - int (length (cs ! (n - 1))))) 0)
          = length (cs ! (n - 2)) - (3 - length (cs ! (n - 1)))"
    using assms(3) by simp
  moreover have "- (3 - int (length (cs ! (n - 1)))) < 0" using assms(3) by simp
  ultimately have "splice_js (cs ! (n - 2)) (- (3 - int (length (cs ! (n - 1))))) =
      (drop (length (cs ! (n - 2)) - (3 - length (cs ! (n - 1)))) (cs ! (n - 2)),
       take (length (cs ! (n - 2)) - (3 - length (cs ! (n - 1)))) (cs ! (n - 2)))"
    by (simp add: splice_js_def Let_def)
  with assms update_last_two [of cs n] show ?thesis
    by (simp add: balance_def)
qed

lemma balance_same:
  "\<not> (1 < n \<and> length (cs ! (n - 1)) < 3) \<Longrightarrow> balance n cs = cs"
  by (auto simp: balance_def)

lemma concat_balance:
  assumes "length cs = n"
  shows "concat (balance n cs) = concat cs"
proof (cases "1 < n \<and> length (cs ! (n - 1)) < 3")
  case True
  with assms have n: "2 \<le> n" by simp
  have "concat cs = concat (take (n - 2) cs @ [cs ! (n - 2), cs ! (n - 1)])"
    using last_two [OF assms n] by simp
  with True balance_moved [OF assms] show ?thesis by simp
next
  case False
  then show ?thesis by (simp add: balance_same)
qed

lemma length_balance [simp]: "length (balance n cs) = length cs"
  by (simp add: balance_def splice_js_def Let_def)

lemma convert_Load:
  assumes run: "convertImagesToPacks E M tray_file files h = Some (evs, h')"
    and load: "Load trays packs \<in> set evs"
  shows "\<exists>img ss.
           Jimp_read E tray_file = Some img \<and>
           trays = fst (make_trays E (DataURL PNG (png_encode E (contain E img 96 96)))
                     ((length files + 29) div 30) [0..<(length files + 29) div 30] h) \<and>
           process_in_order E M files
             (snd (make_trays E (DataURL PNG (png_encode E (contain E img 96 96)))
                     ((length files + 29) div 30) [0..<(length files + 29) div 30] h))
             = Some (Inr ss, h') \<and>
           length ss = length files \<and>
           packs = balance ((length files + 29) div 30) (chunks30 ss)"
proof (cases "Jimp_read E tray_file")
  case None
  with run load show ?thesis
    by (auto simp: convertImagesToPacks_def process_tray)
next
  case (Some img)
  let ?n = "(length files + 29) div 30"
  let ?tray = "DataURL PNG (png_encode E (contain E img 96 96))"
  obtain ts h2 where mt: "make_trays E ?tray ?n [0..<?n] h = (ts, h2)"
    by (cases "make_trays E ?tray ?n [0..<?n] h")
  from run Some mt have run':
    "(case sticker_loop E M files 0 (replicate ?n []) [] h2 of
        None \<Rightarrow> None
      | Some (Inl e, evs0, h3) \<Rightarrow> Some (evs0 @ [Error e], h3)
      | Some (Inr cs, evs0, h3) \<Rightarrow> Some (evs0 @ [Load ts (balance ?n cs)], h3)) = Some (evs, h')"
    by (simp add: convertImagesToPacks_def process_tray Let_def)
  then obtain r evs0 h3 where sl: "sticker_loop E M files 0 (replicate ?n []) [] h2 = Some (r, evs0, h3)"
    by (cases "sticker_loop E M files 0 (replicate ?n []) [] h2") auto
  from sticker_loop_events [OF sl] obtain k where evs0: "evs0 = replicate k StickerLoad" by auto
  show ?thesis
  proof (cases r)
    case (Inl e)
    with run' sl evs0 load show ?thesis by auto
  next
    case (Inr cs)
    with run' sl evs0 load have e: "trays = ts" "packs = balance ?n cs" "h3 = h'" by auto
    from sticker_loop_Inr [OF sl [unfolded Inr]] obtain ss where
      p: "process_in_order E M files h2 = Some (Inr ss, h3)"
      and cs: "cs = push_all 0 (replicate ?n []) ss" by blast
    from process_in_order_result [OF p] have l: "length ss = length files" by simp
    from cs l have "cs = chunks30 ss" using push_all_chunks30 [of ss] by simp
    with Some mt e p l show ?thesis by simp
  qed
qed

lemma convert_success:
  assumes "Jimp_read E tray_file = Some img"
    and "process_in_order E M files
           (snd (make_trays E (DataURL PNG (png_encode E (contain E img 96 96)))
                   ((length files + 29) div 30) [0..<(length files + 29) div 30] h))
           = Some (Inr ss, h')"
  shows "\<exists>trays packs. convertImagesToPacks E M tray_file files h =
           Some (replicate (length files) StickerLoad @ [Load trays packs], h')"
proof -
  let ?n = "(length files + 29) div 30"
  let ?tray = "DataURL PNG (png_encode E (contain E img 96 96))"
  obtain ts h2 where mt: "make_trays E ?tray ?n [0..<?n] h = (ts, h2)"
    by (cases "make_trays E ?tray ?n [0..<?n] h")
  have "0 + length files \<le> length (replicate ?n ([] :: data_url list)) * 30"
    by simp
  from sticker_loop_success [OF _ this, of E M h2 ss h' "[]"] assms(2) mt
  have "sticker_loop E M files 0 (replicate ?n []) [] h2 =
      Some (Inr (push_all 0 (replicate ?n []) ss), replicate (length files) StickerLoad, h')"
    by simp
  with assms(1) mt show ?thesis
    by (simp add: convertImagesToPacks_def process_tray Let_def)
qed

lemma ceil_div30: "\<lceil>rat_of_nat N / 30\<rceil> = int ((N + 29) div 30)"
proof -
  have "rat_of_nat N / 30 = of_int (int N) / of_int 30" by simp
  then have "\<lceil>rat_of_nat N / 30\<rceil> = - (- int N div 30)"
    by (simp only: ceiling_divide_eq_div)
  also have "\<dots> = int ((N + 29) div 30)" by (simp add: zdiv_int)
  finally show ?thesis .
qed

lemma chunks30_facts:
  assumes "cs = chunks30 ss" and "n = (length ss + 29) div 30"
  shows "length cs = n"
    and "\<And>j. j < n \<Longrightarrow> length (cs ! j) = (if j + 1 < n then 30 else length ss - j * 30)"
    and "0 < n \<Longrightarrow> last cs = cs ! (n - 1)"
proof -
  show l: "length cs = n" using assms by (simp add: length_chunks30)
  show "\<And>j. j < n \<Longrightarrow> length (cs ! j) = (if j + 1 < n then 30 else length ss - j * 30)"
    using assms length_nth_chunks30 [of _ ss] by simp
  show "last cs = cs ! (n - 1)" if "0 < n"
  proof -
    from that l have "cs \<noteq> []" by auto
    then have "last cs = cs ! (length cs - 1)" by (rule last_conv_nth)
    with l show ?thesis by simp
  qed
qed


lemma small_sticker:
  "file \<noteq> [] \<Longrightarrow> \<exists>s h'. processImageFile plain_env small_native file ''stickers'' h = Some (Inr s, h')"
  by (simp add: processImageFile_def resizeAndConvert_def plain_env_def quality_loop_attempts)
     (subst attempts.simps,
      simp add: convertImageDataToWebpURL_def Let_def small_native_def fixed_native_def
        tiny_image_def heap_set_ok_def view_ok_def)

lemma small_in_order:
  "\<forall>f \<in> set files. f \<noteq> [] \<Longrightarrow>
     \<exists>ss h'. process_in_order plain_env small_native files h = Some (Inr ss, h')"
proof (induction files arbitrary: h)
  case Nil
  then show ?case by simp
next
  case (Cons file0 files)
  from Cons.prems small_sticker [of file0 h] obtain s h1 where
    p: "processImageFile plain_env small_native file0 ''stickers'' h = Some (Inr s, h1)" by auto
  from Cons.prems Cons.IH [of h1] obtain ss h' where
    "process_in_order plain_env small_native files h1 = Some (Inr ss, h')" by auto
  with p show ?case by simp
qed

lemma small_run:
  "\<forall>f \<in> set files. f \<noteq> [] \<Longrightarrow> 
     \<exists>trays packs h'. convertImagesToPacks plain_env small_native [1] files [] =
        Some (replicate (length files) StickerLoad @ [Load trays packs], h')"
proof -
  assume a: "\<forall>f \<in> set files. f \<noteq> []"
  have j: "Jimp_read plain_env [1] = Some tiny_image" by (simp add: plain_env_def)
  let ?h2 = "snd (make_trays plain_env
                   (DataURL PNG (png_encode plain_env (contain plain_env tiny_image 96 96)))
                   ((length files + 29) div 30) [0..<(length files + 29) div 30] [])"
  from small_in_order [OF a, of ?h2] obtain ss h' where
    "process_in_order plain_env small_native files ?h2 = Some (Inr ss, h')" by blast
  from convert_success [OF j this] show ?thesis by blast
qed

text \<open>
  Claim C5. When \<open>convertImagesToPacks\<close> emits the packs of N sticker files, N at least
  3, there are exactly \<open>ceil(N / 30)\<close> of them; for N = 31 the two packs hold 28 and 3
  stickers.
\<close>

theorem pack_count:
  assumes "convertImagesToPacks E M tray_file sticker_files h = Some (evs, h')"
    and "Load trays packs \<in> set evs"
    and "3 \<le> length sticker_files"
  shows "int (length packs) = \<lceil>rat_of_nat (length sticker_files) / 30\<rceil> \<and>
         (length sticker_files = 31 \<longrightarrow> map length packs = [28, 3])"
proof -
  from convert_Load [OF assms(1,2)] obtain ss where
    l: "length ss = length sticker_files"
    and p: "packs = balance ((length sticker_files + 29) div 30) (chunks30 ss)" by blast
  let ?cs = "chunks30 ss"
  from p l have "length packs = (length sticker_files + 29) div 30"
    by (simp add: length_chunks30)
  then have count: "int (length packs) = \<lceil>rat_of_nat (length sticker_files) / 30\<rceil>"
    by (simp add: ceil_div30)
  have "map length packs = [28, 3]" if n31: "length sticker_files = 31"
  proof -
    from n31 l have n: "(length ss + 29) div 30 = 2" by simp
    note f = chunks30_facts [OF refl n [symmetric]]
    from f(2) [of 0] f(2) [of 1] l n31
    have l0: "length (?cs ! 0) = 30" and l1: "length (?cs ! 1) = 1" by simp_all
    from balance_moved [of ?cs 2] f(1) l0 l1
    have "balance 2 ?cs = [take 28 (?cs ! 0), drop 28 (?cs ! 0) @ ?cs ! 1]"
      by (simp add: numeral_2_eq_2)
    with p n31 l0 l1 show ?thesis by simp
  qed
  with count show ?thesis by blast
qed

text \<open>
  Claim C7. The stickers of the emitted packs, read pack by pack, are the input files encoded
  one after the other in input order: balancing reorders nothing and drops nothing.
\<close>

theorem order_preserved:
  assumes "convertImagesToPacks E M tray_file sticker_files h = Some (evs, h')"
    and "Load trays packs \<in> set evs"
  shows "\<exists>h2. process_in_order E M sticker_files h2 = Some (Inr (concat packs), h')"
proof -
  from convert_Load [OF assms] obtain ss h2 where
    o: "process_in_order E M sticker_files h2 = Some (Inr ss, h')"
    and p: "packs = balance ((length sticker_files + 29) div 30) (chunks30 ss)"
    and l: "length ss = length sticker_files" by blast
  from l have "length (chunks30 ss) = (length sticker_files + 29) div 30"
    by (simp add: length_chunks30)
  from concat_balance [OF this] p have "concat packs = ss"
    by (simp add: concat_chunks30)
  with o show ?thesis by blast
qed

lemma balanced_packs:
  assumes l: "3 \<le> length ss"
    and cs: "cs = chunks30 ss"
    and n: "n = length cs"
  shows "(if 1 < n \<and> length (last cs) < 3
          then balance n cs =
                 take (n - 2) cs @
                   [take (length (cs ! (n - 2)) - (3 - length (last cs))) (cs ! (n - 2)),
                    drop (length (cs ! (n - 2)) - (3 - length (last cs))) (cs ! (n - 2)) @ last cs]
          else balance n cs = cs) \<and>
         (\<forall>p \<in> set (balance n cs). 3 \<le> length p \<and> length p \<le> 30)"
proof -
  from cs n have n': "n = (length ss + 29) div 30" by (simp add: length_chunks30)
  note f = chunks30_facts [OF cs n']
  from l n' have pos: "0 < n" by simp
  note la = f(3) [OF pos]
  from f(2) [of "n - 1"] pos have llast: "length (last cs) = length ss - (n - 1) * 30"
    by (simp add: la)
  from n' have "length ss \<le> n * 30 \<and> ((n - 1) * 30 < length ss \<or> n = 0)"
    using div30_bounds [of "length ss + 29"] by (cases n) auto
  then have up: "length ss \<le> n * 30" and low: "(n - 1) * 30 < length ss \<or> n = 0"
    by simp_all
  show ?thesis
  proof (cases "1 < n \<and> length (last cs) < 3")
    case True
    then have n2: "2 \<le> n" by simp
    from True have lt: "length (cs ! (n - 1)) < 3" by (simp add: la)
    from balance_moved [OF f(1) _ lt] True
    have b: "balance n cs =
        take (n - 2) cs @
          [take (length (cs ! (n - 2)) - (3 - length (last cs))) (cs ! (n - 2)),
           drop (length (cs ! (n - 2)) - (3 - length (last cs))) (cs ! (n - 2)) @ last cs]"
      by (simp add: la)
    from n2 have "n - 2 < n" and "n - 2 + 1 < n" by simp_all
    with f(2) [of "n - 2"] have ld: "length (cs ! (n - 2)) = 30" by simp
    from low pos llast have l1: "1 \<le> length (last cs)" by simp
    have "\<forall>p \<in> set (take (n - 2) cs). length p = 30"
    proof
      fix p assume "p \<in> set (take (n - 2) cs)"
      then obtain j where j: "j < n - 2" and p: "p = cs ! j"
        using f(1) by (auto simp: in_set_conv_nth)
      from f(2) [of j] j p show "length p = 30" by simp
    qed
    then have "\<forall>p \<in> set (take (n - 2) cs @
          [take (length (cs ! (n - 2)) - (3 - length (last cs))) (cs ! (n - 2)),
           drop (length (cs ! (n - 2)) - (3 - length (last cs))) (cs ! (n - 2)) @ last cs]).
          3 \<le> length p \<and> length p \<le> 30"
      using ld l1 True by auto
    then have "\<forall>p \<in> set (balance n cs). 3 \<le> length p \<and> length p \<le> 30"
      unfolding b .
    with b have "balance n cs =
        take (n - 2) cs @
          [take (length (cs ! (n - 2)) - (3 - length (last cs))) (cs ! (n - 2)),
           drop (length (cs ! (n - 2)) - (3 - length (last cs))) (cs ! (n - 2)) @ last cs] \<and>
        (\<forall>p \<in> set (balance n cs). 3 \<le> length p \<and> length p \<le> 30)" by blast
    then show ?thesis unfolding if_P [OF True] .
  next
    case False
    then have b: "balance n cs = cs" by (simp add: balance_same la)
    have "\<forall>p \<in> set cs. 3 \<le> length p \<and> length p \<le> 30"
    proof
      fix p assume "p \<in> set cs"
      then obtain j where j: "j < n" and p: "p = cs ! j"
        using f(1) by (auto simp: in_set_conv_nth)
      show "3 \<le> length p \<and> length p \<le> 30"
      proof (cases "j + 1 < n")
        case True
        with f(2) [OF j] p show ?thesis by simp
      next
        case last: False
        with j have jn: "j = n - 1" by simp
        with p have pl: "length p = length (last cs)" by (simp add: la)
        from llast up pos have "length (last cs) \<le> 30" by simp
        moreover have "3 \<le> length (last cs)"
        proof (cases "1 < n")
          case True
          with False show ?thesis by simp
        next
          case False
          with pos have "n = 1" by simp
          with llast l show ?thesis by simp
        qed
        ultimately show ?thesis using pl by simp
      qed
    qed
    with b have "balance n cs = cs \<and>
        (\<forall>p \<in> set (balance n cs). 3 \<le> length p \<and> length p \<le> 30)" by simp
    then show ?thesis unfolding if_not_P [OF False] .
  qed
qed

text \<open>
  Claim C6. For N at least 3 every emitted pack holds between 3 and 30 stickers. With \<open>cs\<close>
  the chunks of 30 of the encoded stickers: when there is more than one chunk and the last
  one has fewer than 3 stickers, the packs are the chunks with the last \<open>3 - len(last)\<close>
  stickers of the second-to-last chunk moved to the front of the last one; otherwise the
  packs are the chunks.
\<close>

theorem pack_sizes:
  assumes "convertImagesToPacks E M tray_file sticker_files h = Some (evs, h')"
    and "Load trays packs \<in> set evs"
    and "3 \<le> length sticker_files"
  shows "(\<forall>p \<in> set packs. 3 \<le> length p \<and> length p \<le> 30) \<and>
         (\<exists>ss h2. process_in_order E M sticker_files h2 = Some (Inr ss, h') \<and>
            (let cs = chunks30 ss; n = length cs; donor = cs ! (n - 2); k = 3 - length (last cs)
             in if 1 < n \<and> length (last cs) < 3
                then packs = take (n - 2) cs @
                       [take (length donor - k) donor, drop (length donor - k) donor @ last cs]
                else packs = cs))"
proof -
  from convert_Load [OF assms(1,2)] obtain ss h2 where
    o: "process_in_order E M sticker_files h2 = Some (Inr ss, h')"
    and p: "packs = balance ((length sticker_files + 29) div 30) (chunks30 ss)"
    and l: "length ss = length sticker_files" by blast
  from l have n: "(length sticker_files + 29) div 30 = length (chunks30 ss)"
    by (simp add: length_chunks30)
  have p': "balance (length (chunks30 ss)) (chunks30 ss) = packs"
    unfolding p n ..
  from assms(3) l have "3 \<le> length ss" by simp
  note bp = balanced_packs [OF this refl refl, unfolded p']
  show ?thesis unfolding Let_def
  proof (intro conjI exI)
    show "\<forall>p \<in> set packs. 3 \<le> length p \<and> length p \<le> 30"
      by (rule bp [THEN conjunct2])
    show "process_in_order E M sticker_files h2 = Some (Inr ss, h')"
      by (rule o)
    show "if 1 < length (chunks30 ss) \<and> length (last (chunks30 ss)) < 3
          then packs =
                 take (length (chunks30 ss) - 2) (chunks30 ss) @
                   [take (length (chunks30 ss ! (length (chunks30 ss) - 2))
                            - (3 - length (last (chunks30 ss))))
                      (chunks30 ss ! (length (chunks30 ss) - 2)),
                    drop (length (chunks30 ss ! (length (chunks30 ss) - 2))
                            - (3 - length (last (chunks30 ss))))
                      (chunks30 ss ! (length (chunks30 ss) - 2)) @ last (chunks30 ss)]
          else packs = chunks30 ss"
      by (rule bp [THEN conjunct1])
  qed
qed

text \<open>
  Claim C9. With exactly one pack the trays are the base tray alone, as it came out of
  \<open>processImageFile\<close>, and \<open>addNumberToTray\<close> is not called; otherwise pack \<open>i\<close>
  (counted from 0) has the tray that \<open>addNumberToTray\<close> draws from the base tray and the
  decimal text of \<open>i + 1\<close>, and the calls are made in pack order.
\<close>

theorem pack_trays:
  assumes "convertImagesToPacks E M tray_file sticker_files h = Some (evs, h')"
    and "Load trays packs \<in> set evs"
  shows "\<exists>img. Jimp_read E tray_file = Some img \<and>
           (let tray = DataURL PNG (png_encode E (contain E img 96 96));
                overlays = filter is_overlay (drop (length h) h')
            in if length packs = 1 then trays = [tray] \<and> overlays = []
               else trays = map (\<lambda>i. DataURL PNG (draw_number E tray (show_nat (i + 1))))
                              [0..<length packs] \<and>
                    overlays = map (\<lambda>i. Add_number_to_tray tray (show_nat (i + 1)))
                                 [0..<length packs])"
proof -
  let ?n = "(length sticker_files + 29) div 30"
  from convert_Load [OF assms] obtain img ss where
    j: "Jimp_read E tray_file = Some img"
    and t: "trays = fst (make_trays E (DataURL PNG (png_encode E (contain E img 96 96)))
                     ?n [0..<?n] h)"
    and o: "process_in_order E M sticker_files
             (snd (make_trays E (DataURL PNG (png_encode E (contain E img 96 96)))
                     ?n [0..<?n] h)) = Some (Inr ss, h')"
    and l: "length ss = length sticker_files"
    and p: "packs = balance ?n (chunks30 ss)" by blast
  from p l have n: "length packs = ?n" by (simp add: length_chunks30)
  from process_in_order_result [OF o] obtain evs2 where
    h': "h' = snd (make_trays E (DataURL PNG (png_encode E (contain E img 96 96)))
                     ?n [0..<?n] h) @ evs2"
    and e2: "filter is_overlay evs2 = []" by blast
  have fo: "filter is_overlay (map (\<lambda>i. Add_number_to_tray tray (show_nat (i + 1))) idxs)
          = map (\<lambda>i. Add_number_to_tray tray (show_nat (i + 1))) idxs" for tray idxs
    by (induction idxs) simp_all
  show ?thesis
  proof (cases "?n = 1")
    case True
    with j t h' e2 n show ?thesis
      by (simp add: make_trays_eq Let_def)
  next
    case False
    with j t h' e2 n show ?thesis
      by (simp add: make_trays_eq Let_def fo)
  qed
qed

text \<open>
  Claim C4, as the code has it. Every sticker of an emitted pack went through the quality
  loop: it is a WebP data URL of at most 100000 bytes. Every tray is a PNG data URL: the tray
  file is processed with \<open>toWebp = false\<close>, which calls no encoder (the history is
  unchanged), and the numbered trays come from \<open>canvas.toDataURL('image/png')\<close>.
\<close>

theorem pack_formats:
  assumes "convertImagesToPacks E M tray_file sticker_files h = Some (evs, h')"
    and "Load trays packs \<in> set evs"
  shows "(\<forall>t \<in> set trays. mime_of t = PNG) \<and>
         (\<forall>p \<in> set packs. \<forall>s \<in> set p. mime_of s = WEBP \<and> length (payload s) \<le> 100000) \<and>
         map_option snd (processImageFile E M tray_file ''tray'' h) = Some h"
proof -
  let ?n = "(length sticker_files + 29) div 30"
  from convert_Load [OF assms] obtain img ss h2 where
    j: "Jimp_read E tray_file = Some img"
    and t: "trays = fst (make_trays E (DataURL PNG (png_encode E (contain E img 96 96)))
                     ?n [0..<?n] h)"
    and o: "process_in_order E M sticker_files h2 = Some (Inr ss, h')"
    and l: "length ss = length sticker_files"
    and p: "packs = balance ?n (chunks30 ss)" by blast
  from t have a: "\<forall>t \<in> set trays. mime_of t = PNG"
    by (auto simp: make_trays_eq)
  from l have "length (chunks30 ss) = ?n" by (simp add: length_chunks30)
  from concat_balance [OF this] p have c: "concat packs = ss" by (simp add: concat_chunks30)
  from process_in_order_result [OF o]
  have "\<forall>s \<in> set ss. mime_of s = WEBP \<and> length (payload s) \<le> 100000" by blast
  with c have b: "\<forall>p \<in> set packs. \<forall>s \<in> set p. mime_of s = WEBP \<and> length (payload s) \<le> 100000"
    by auto
  from j have "map_option snd (processImageFile E M tray_file ''tray'' h) = Some h"
    by (simp add: process_tray)
  with a b show ?thesis by blast
qed

text \<open>
  Claim C4 as stated fails: the tray file is processed into a PNG data URL and the encoder is
  not called for it.
\<close>

theorem pack_formats_counterexample:
  "map_option (map_sum id mime_of \<circ> fst) (processImageFile plain_env small_native [1] ''tray'' [])
     = Some (Inr PNG) \<and>
   map_option (encode_qualities \<circ> snd) (processImageFile plain_env small_native [1] ''tray'' [])
     = Some []"
  by (simp add: process_tray plain_env_def)

subsection \<open>The archive\<close>

lemma qualifying_simps [simp]:
  "qualifying [] = []"
  "qualifying (x # xs) = (if qualifies (fst x) then x # qualifying xs else qualifying xs)"
  by (simp_all add: qualifying_def)

lemma map_of_first_qualifying:
  "qualifying z = e # rest \<Longrightarrow> map_of z (fst e) = Some (snd e)"
proof (induction z)
  case Nil
  then show ?case by simp
next
  case (Cons x xs)
  show ?case
  proof (cases "qualifies (fst x)")
    case True
    with Cons.prems have "e = x" by simp
    then show ?thesis by (cases x) simp
  next
    case False
    with Cons.prems have f: "qualifying xs = e # rest" by simp
    then have "e \<in> set (qualifying xs)" by simp
    then have "qualifies (fst e)" by (simp add: qualifying_def)
    with False have "fst x \<noteq> fst e" by auto
    with Cons.IH [OF f] show ?thesis by (cases x) simp
  qed
qed

lemma blobs_Some:
  "set paths \<subseteq> fst ` set z \<Longrightarrow> \<exists>bs. blobs z paths = Some bs \<and> length bs = length paths \<and>
     (\<forall>b. paths \<noteq> [] \<and> map_of z (hd paths) = Some b \<longrightarrow> hd bs = b)"
proof (induction paths)
  case Nil
  then show ?case by simp
next
  case (Cons p ps)
  then have "p \<in> fst ` set z" by simp
  then obtain b where b: "map_of z p = Some b"
    by (metis domD dom_map_of_conv_image_fst)
  from Cons obtain bs where "blobs z ps = Some bs" "length bs = length ps" by auto
  with b show ?case by simp
qed

text \<open>
  Claim C10. For an archive with at least 3 qualifying entries \<open>unzip\<close> returns the content
  of the first qualifying entry as the tray file, and the same content is the first of the
  sticker files, of which there is one for each qualifying entry.
\<close>

theorem unzip_tray_first:
  assumes "loadAsync input = Some z"
    and "3 \<le> length (qualifying z)"
  shows "\<exists>r. unzip loadAsync input = Inr r \<and>
           trayFile r = snd (hd (qualifying z)) \<and>
           stickersFiles r \<noteq> [] \<and>
           hd (stickersFiles r) = trayFile r \<and>
           length (stickersFiles r) = length (qualifying z)"
proof -
  let ?q = "qualifying z"
  let ?paths = "filter qualifies (map fst z)"
  have paths: "?paths = map fst ?q" by (simp add: filter_map qualifying_def comp_def)
  from assms(2) obtain e rest where q: "?q = e # rest" by (cases ?q) auto
  from map_of_first_qualifying [OF q] have tray: "map_of z (fst e) = Some (snd e)" .
  from q paths have hd: "?paths ! 0 = fst e" and hd': "hd ?paths = fst e" and ne: "?paths \<noteq> []"
    by simp_all
  have "set ?paths \<subseteq> fst ` set z" by auto
  from blobs_Some [OF this] obtain bs where
    bs: "blobs z ?paths = Some bs" "length bs = length ?paths"
    and h: "\<forall>b. ?paths \<noteq> [] \<and> map_of z (hd ?paths) = Some b \<longrightarrow> hd bs = b" by blast
  from h ne tray hd' have hb: "hd bs = snd e" by simp
  from bs(2) paths assms(2) have lb: "length bs = length ?q" and nb: "bs \<noteq> []" by auto
  from assms paths have "\<not> length ?paths < 3" by simp
  with assms(1) tray hd bs(1) have "unzip loadAsync input = Inr \<lparr>trayFile = snd e, stickersFiles = bs\<rparr>"
    by (simp add: unzip_def Let_def)
  with q hb lb nb show ?thesis by simp
qed

text \<open>
  The theorem of claim C10 at an archive of five entries.
\<close>

theorem unzip_tray_first_witness:
  "example_loadAsync [] = Some example_zip \<and>
   3 \<le> length (qualifying example_zip) \<and>
   (\<exists>r. unzip example_loadAsync [] = Inr r \<and> trayFile r = [1] \<and> hd (stickersFiles r) = [1] \<and>
      length (stickersFiles r) = 3)"
proof -
  have f: "qualifying example_zip = [(''a.png'', [1]), (''b.jpg'', [2]), (''c.png'', [4])]"
    by (simp add: example_zip_def qualifies_def suffix_def)
  have l: "example_loadAsync [] = Some example_zip" by (simp add: example_loadAsync_def)
  have t: "3 \<le> length (qualifying example_zip)" by (simp add: f)
  from unzip_tray_first [of example_loadAsync "[]" example_zip, OF l t] l t show ?thesis by (auto simp: f)
qed

subsection \<open>A run with 31 sticker files\<close>

lemma example_run:
  "\<exists>evs h' trays packs.
     convertImagesToPacks plain_env small_native [1] (replicate 31 [1]) [] = Some (evs, h') \<and>
     Load trays packs \<in> set evs"
proof -
  from small_run [of "replicate 31 [1]"] obtain trays packs h' where
    "convertImagesToPacks plain_env small_native [1] (replicate 31 [1]) [] =
       Some (replicate (length (replicate 31 [1::byte])) StickerLoad @ [Load trays packs], h')"
    by auto
  moreover have "Load trays packs \<in>
      set (replicate (length (replicate 31 [1::byte])) StickerLoad @ [Load trays packs])"
    by simp
  ultimately show ?thesis by blast
qed

text \<open>
  The theorem of claim C5 at a run with 31 sticker files.
\<close>

theorem pack_count_witness:
  "\<exists>evs h' trays packs.
     convertImagesToPacks plain_env small_native [1] (replicate 31 [1]) [] = Some (evs, h') \<and>
     Load trays packs \<in> set evs \<and>
     3 \<le> length (replicate 31 [1::byte]) \<and>
     length packs = 2 \<and> map length packs = [28, 3]"
proof -
  from example_run obtain evs h' trays packs where
    run: "convertImagesToPacks plain_env small_native [1] (replicate 31 [1]) [] = Some (evs, h')"
    and load: "Load trays packs \<in> set evs" by blast
  have n: "3 \<le> length (replicate 31 [1::byte])" by simp
  from pack_count [OF run load n] have r: "length packs = 2" "map length packs = [28, 3]"
    by auto
  show ?thesis
    by (rule exI [of _ evs], rule exI [of _ h'], rule exI [of _ trays], rule exI [of _ packs])
       (intro conjI run load n r)
qed

text \<open>
  The theorem of claim C6 at a run with 31 sticker files.
\<close>

theorem pack_sizes_witness:
  "\<exists>evs h' trays packs.
     convertImagesToPacks plain_env small_native [1] (replicate 31 [1]) [] = Some (evs, h') \<and>
     Load trays packs \<in> set evs \<and>
     3 \<le> length (replicate 31 [1::byte]) \<and>
     (\<forall>p \<in> set packs. 3 \<le> length p \<and> length p \<le> 30) \<and>
     (\<exists>ss h2. process_in_order plain_env small_native (replicate 31 [1]) h2 = Some (Inr ss, h') \<and>
        (let cs = chunks30 ss; n = length cs; donor = cs ! (n - 2); k = 3 - length (last cs)
         in if 1 < n \<and> length (last cs) < 3
            then packs = take (n - 2) cs @
                   [take (length donor - k) donor, drop (length donor - k) donor @ last cs]
            else packs = cs))"
proof -
  from example_run obtain evs h' trays packs where
    run: "convertImagesToPacks plain_env small_native [1] (replicate 31 [1]) [] = Some (evs, h')"
    and load: "Load trays packs \<in> set evs" by blast
  have n: "3 \<le> length (replicate 31 [1::byte])" by simp
  show ?thesis
    by (rule exI [of _ evs], rule exI [of _ h'], rule exI [of _ trays], rule exI [of _ packs])
       (intro conjI run load n pack_sizes [OF run load n])
qed

text \<open>
  The theorem of claim C7 at a run with 31 sticker files.
\<close>

theorem order_preserved_witness:
  "\<exists>evs h' trays packs.
     convertImagesToPacks plain_env small_native [1] (replicate 31 [1]) [] = Some (evs, h') \<and>
     Load trays packs \<in> set evs \<and>
     (\<exists>h2. process_in_order plain_env small_native (replicate 31 [1]) h2
              = Some (Inr (concat packs), h'))"
proof -
  from example_run obtain evs h' trays packs where
    run: "convertImagesToPacks plain_env small_native [1] (replicate 31 [1]) [] = Some (evs, h')"
    and load: "Load trays packs \<in> set evs" by blast
  show ?thesis
    by (rule exI [of _ evs], rule exI [of _ h'], rule exI [of _ trays], rule exI [of _ packs])
       (intro conjI run load order_preserved [OF run load])
qed

text \<open>
  The theorem of claim C9 at a run with 31 sticker files.
\<close>

theorem pack_trays_witness:
  "\<exists>evs h' trays packs.
     convertImagesToPacks plain_env small_native [1] (replicate 31 [1]) [] = Some (evs, h') \<and>
     Load trays packs \<in> set evs \<and>
     (\<exists>img. Jimp_read plain_env [1] = Some img \<and>
        (let tray = DataURL PNG (png_encode plain_env (contain plain_env img 96 96));
             overlays = filter is_overlay (drop (length ([] :: history)) h')
         in if length packs = 1 then trays = [tray] \<and> overlays = []
            else trays = map (\<lambda>i. DataURL PNG (draw_number plain_env tray (show_nat (i + 1))))
                           [0..<length packs] \<and>
                 overlays = map (\<lambda>i. Add_number_to_tray tray (show_nat (i + 1)))
                              [0..<length packs]))"
proof -
  from example_run obtain evs h' trays packs where
    run: "convertImagesToPacks plain_env small_native [1] (replicate 31 [1]) [] = Some (evs, h')"
    and load: "Load trays packs \<in> set evs" by blast
  show ?thesis
    by (rule exI [of _ evs], rule exI [of _ h'], rule exI [of _ trays], rule exI [of _ packs])
       (intro conjI run load pack_trays [OF run load])
qed

text \<open>
  The theorem of claim C4 at a run with 31 sticker files.
\<close>

theorem pack_formats_witness:
  "\<exists>evs h' trays packs.
     convertImagesToPacks plain_env small_native [1] (replicate 31 [1]) [] = Some (evs, h') \<and>
     Load trays packs \<in> set evs \<and>
     (\<forall>t \<in> set trays. mime_of t = PNG) \<and>
     (\<forall>p \<in> set packs. \<forall>s \<in> set p. mime_of s = WEBP \<and> length (payload s) \<le> 100000) \<and>
     map_option snd (processImageFile plain_env small_native [1] ''tray'' []) = Some []"
proof -
  from example_run obtain evs h' trays packs where
    run: "convertImagesToPacks plain_env small_native [1] (replicate 31 [1]) [] = Some (evs, h')"
    and load: "Load trays packs \<in> set evs" by blast
  show ?thesis
    by (rule exI [of _ evs], rule exI [of _ h'], rule exI [of _ trays], rule exI [of _ packs])
       (intro conjI run load pack_formats [OF run load])
qed

end
